theory Spec2Isabelle
  imports
    Complex_Main
    "HOL-Library.Sublist"
    "HOL-Library.Multiset"
    "HOL-Library.Log_Nat"
    "HOL-Library.Char_ord"
    "HOL-Library.List_Lexorder"
begin

section \<open>Text primitives\<close>

text \<open>
  Python strings are modelled as \<^typ>\<open>string\<close>: the characters of an entry are taken to be
  code points below 256, one \<^typ>\<open>char\<close> each. Comparison of strings in Python is
  lexicographic by code point, which is the order of \<^typ>\<open>string\<close> here.
\<close>

definition nl :: char where
  "nl = CHR 0x0A"

text \<open>The characters \<^verbatim>\<open>str.strip()\<close> removes: those with \<^verbatim>\<open>str.isspace()\<close> true.\<close>

definition whitespace :: "char list" where
  "whitespace = [CHR 0x09, CHR 0x0A, CHR 0x0B, CHR 0x0C, CHR 0x0D, CHR 0x1C, CHR 0x1D,
                 CHR 0x1E, CHR 0x1F, CHR 0x20, CHR 0x85, CHR 0xA0]"

definition isspace :: "char \<Rightarrow> bool" where
  "isspace c = (c \<in> set whitespace)"

definition lstrip :: "string \<Rightarrow> string" where
  "lstrip s = dropWhile isspace s"

definition rstrip :: "string \<Rightarrow> string" where
  "rstrip s = rev (dropWhile isspace (rev s))"

definition strip :: "string \<Rightarrow> string" where
  "strip s = rstrip (lstrip s)"

definition startswith :: "string \<Rightarrow> string \<Rightarrow> bool" where
  "startswith s p = prefix p s"

definition endswith :: "string \<Rightarrow> string \<Rightarrow> bool" where
  "endswith s p = suffix p s"

text \<open>\<^verbatim>\<open>p in s\<close> on two strings: \<open>p\<close> occurs in \<open>s\<close> as a contiguous block.\<close>

fun contains :: "string \<Rightarrow> string \<Rightarrow> bool" where
  "contains [] p = (p = [])"
| "contains (c # cs) p = (prefix p (c # cs) \<or> contains cs p)"

text \<open>
  The text before and after the leftmost occurrence of a non-empty pattern, when there is
  one. This is where a regular expression made of the literal \<open>p\<close> matches first.
\<close>

fun find_first :: "string \<Rightarrow> string \<Rightarrow> (string \<times> string) option" where
  "find_first p [] = None"
| "find_first p (c # cs) =
     (if p \<noteq> [] \<and> prefix p (c # cs) then Some ([], drop (length p) (c # cs))
      else (case find_first p cs of
              None \<Rightarrow> None
            | Some (b, a) \<Rightarrow> Some (c # b, a)))"

text \<open>
  \<^verbatim>\<open>s.split(sep)\<close> for a non-empty separator: the pieces between the non-overlapping
  occurrences of \<open>sep\<close>, found from the left.
\<close>

function split :: "string \<Rightarrow> string \<Rightarrow> string list" where
  "split sep [] = [[]]"
| "split sep (c # cs) =
     (if sep \<noteq> [] \<and> prefix sep (c # cs) then [] # split sep (drop (length sep) (c # cs))
      else (case split sep cs of
              [] \<Rightarrow> [[c]]
            | p # ps \<Rightarrow> (c # p) # ps))"
  by pat_completeness auto
termination
  by (relation "measure (\<lambda>(sep, s). length s)") (auto simp: neq_Nil_conv)

text \<open>
  \<^verbatim>\<open>re.sub(r'\([^)]*\)', '', v)\<close>: every opening parenthesis that has a closing one after
  it is removed together with the text up to the nearest closing parenthesis.
\<close>

function remove_parens :: "string \<Rightarrow> string" where
  "remove_parens [] = []"
| "remove_parens (c # cs) =
     (if c = CHR ''('' \<and> CHR '')'' \<in> set cs
      then remove_parens (tl (dropWhile (\<lambda>x. x \<noteq> CHR '')'') cs))
      else c # remove_parens cs)"
  by pat_completeness auto
termination
proof (relation "measure length")
  fix c :: char and cs :: string
  assume "c = CHR ''('' \<and> CHR '')'' \<in> set cs"
  have "length (tl (dropWhile (\<lambda>x. x \<noteq> CHR '')'') cs)) \<le> length cs"
    using length_dropWhile_le [of "\<lambda>x. x \<noteq> CHR '')''" cs] by simp
  then show "(tl (dropWhile (\<lambda>x. x \<noteq> CHR '')'') cs), c # cs) \<in> measure length"
    by simp
qed simp_all

text \<open>
  \<^verbatim>\<open>field.lower()\<close>. It is applied to field names that passed the order check only, and
  those are ASCII, so the ASCII letters are all that is mapped.
\<close>

definition lower_char :: "char \<Rightarrow> char" where
  "lower_char c =
     (case map_of (zip ''ABCDEFGHIJKLMNOPQRSTUVWXYZ'' ''abcdefghijklmnopqrstuvwxyz'') c of
        None \<Rightarrow> c
      | Some d \<Rightarrow> d)"

definition lower :: "string \<Rightarrow> string" where
  "lower s = map lower_char s"

section \<open>Value decoding\<close>

text \<open>
  The decoding steps of \<^verbatim>\<open>parse_entry\<close>, in the order of the source: remove parentheses
  with content, split, strip every piece, drop the empty pieces, then take \<^verbatim>\<open>x[1:-1]\<close>
  of a piece that starts with \<^verbatim>\<open><\<close> and ends with \<^verbatim>\<open>>\<close>. The source tests the two
  characters with \<^verbatim>\<open>is\<close>; CPython keeps one object for each one-character string of
  this range, so the test agrees with equality. The pieces reaching \<open>unwrap\<close> are not
  empty, so its first equation is never used by \<open>decode\<close>.
  \<^verbatim>\<open>utils/osg.py\<close> splits on \<^verbatim>\<open>', '\<close> and \<^verbatim>\<open>maintenance.py\<close> on \<^verbatim>\<open>','\<close>.
\<close>

fun unwrap :: "string \<Rightarrow> string" where
  "unwrap [] = []"
| "unwrap (c # cs) =
     (if c = CHR ''<'' \<and> last (c # cs) = CHR ''>'' then butlast cs else c # cs)"

definition decode :: "string \<Rightarrow> string \<Rightarrow> string list" where
  "decode sep v =
     map unwrap (filter (\<lambda>x. x \<noteq> []) (map strip (split sep (remove_parens v))))"

definition strict_sep :: string where
  "strict_sep = '', ''"

definition lenient_sep :: string where
  "lenient_sep = '',''"

section \<open>Vocabulary tables of \<^verbatim>\<open>utils/osg.py\<close>\<close>

definition essential_fields :: "string list" where
  "essential_fields =
     [''Home'', ''State'', ''Keywords'', ''Code repository'', ''Code language'', ''Code license'']"

definition valid_fields :: "string list" where
  "valid_fields =
     [''Home'', ''Media'', ''State'', ''Play'', ''Download'', ''Platform'', ''Keywords'',
      ''Code repository'', ''Code language'', ''Code license'', ''Code dependencies'',
      ''Assets license'', ''Developer'', ''Build system'', ''Build instructions'']"

definition valid_platforms :: "string list" where
  "valid_platforms = [''Windows'', ''Linux'', ''macOS'', ''Android'', ''iOS'', ''Web'']"

definition recommended_keywords :: "string list" where
  "recommended_keywords =
     [''action'', ''arcade'', ''adventure'', ''visual novel'', ''sports'', ''platform'',
      ''puzzle'', ''role playing'', ''simulation'', ''strategy'', ''card game'', ''board game'',
      ''music'', ''educational'', ''tool'', ''game engine'', ''framework'', ''library'',
      ''remake'']"

section \<open>Errors and the parsed entry\<close>

text \<open>
  One constructor for each \<^verbatim>\<open>raise RuntimeError(...)\<close> of \<^verbatim>\<open>utils/osg.py\<close>, in the order
  of the source, for each \<^verbatim>\<open>print('Error: ...')\<close> of \<^verbatim>\<open>maintenance.py\<close>, and for the
  exceptions the interpreter raises itself.
\<close>

datatype error =
    NameNotFound
  | DescriptionNotFound
  | EssentialFieldMissing string
  | FieldOrder string
  | FieldMultiple string
  | EssentialFieldEmpty string
  | UnknownStateTag string
  | StateNotOne
  | UrlScheme string
  | UrlSpace string
  | PlatformOrder string
  | InvalidPlatform string
  | NoKeyword
  | NoRecommendedKeyword
  | AssertionError
  | KeyError string
  | IndexError
  | ZeroDivisionError

text \<open>
  The dictionary \<^verbatim>\<open>info\<close>. Its keys are disjoint by kind, so it is a record of the
  fixed keys and two maps: \<open>title\<close> is the key \<^verbatim>\<open>'name'\<close> of \<^verbatim>\<open>utils/osg.py\<close> and
  \<^verbatim>\<open>'title'\<close> of \<^verbatim>\<open>maintenance.py\<close>; \<open>raw\<close> holds the keys \<^verbatim>\<open>field.lower()+'-raw'\<close>,
  \<open>vals\<close> the keys \<^verbatim>\<open>field.lower()\<close>, and \<open>inactive\<close> the key \<^verbatim>\<open>'inactive'\<close>.
\<close>

record info =
  title :: string
  description :: string
  raw :: "string \<rightharpoonup> string"
  vals :: "string \<rightharpoonup> string list"
  inactive :: "string option"

section \<open>Tokenizing an entry\<close>

text \<open>
  \<^verbatim>\<open>re.compile(r"^# (.*)").findall(content)\<close>: without \<^verbatim>\<open>re.MULTILINE\<close> the pattern can
  match at the start of the content only, and \<^verbatim>\<open>.\<close> stops at the end of the line.
\<close>

definition name_matches :: "string \<Rightarrow> string list" where
  "name_matches content =
     (if prefix ''# '' content then [takeWhile (\<lambda>c. c \<noteq> nl) (drop 2 content)] else [])"

text \<open>
  \<^verbatim>\<open>re.compile(r"^.*\n\n_(.*)_\n").findall(content)\<close>: the first line, an empty line, then
  a line that starts and ends with an underscore and is followed by a line break.
\<close>

definition description_matches :: "string \<Rightarrow> string list" where
  "description_matches content =
     (let rest = dropWhile (\<lambda>c. c \<noteq> nl) content in
      if prefix [nl, nl, CHR ''_''] rest
      then (let line = takeWhile (\<lambda>c. c \<noteq> nl) (drop 3 rest);
                after = dropWhile (\<lambda>c. c \<noteq> nl) (drop 3 rest)
            in if after \<noteq> [] \<and> line \<noteq> [] \<and> last line = CHR ''_'' then [butlast line] else [])
      else [])"

text \<open>
  \<^verbatim>\<open>re.compile(r"^- (.*?): ", re.MULTILINE).findall(content)\<close>: of every line that starts
  with \<^verbatim>\<open>"- "\<close>, the text up to the first \<^verbatim>\<open>": "\<close> after it.
\<close>

definition line_field :: "string \<Rightarrow> string option" where
  "line_field line =
     (if prefix ''- '' line then map_option fst (find_first '': '' (drop 2 line)) else None)"

definition field_names :: "string \<Rightarrow> string list" where
  "field_names content = List.map_filter line_field (split [nl] content)"

text \<open>
  \<^verbatim>\<open>re.compile(r"- {}: (.*)".format(field)).findall(content)\<close>. The field names that reach
  this point passed the order check, so they are names of the canonical list and hold no
  character that is special in a regular expression: the pattern is the literal text, and
  it matches once in every line that contains it, with the rest of the line as the group.
\<close>

definition field_matches :: "string \<Rightarrow> string \<Rightarrow> string list" where
  "field_matches content field =
     List.map_filter (\<lambda>line. map_option snd (find_first (''- '' @ field @ '': '') line))
       (split [nl] content)"

section \<open>The order check\<close>

text \<open>
  The inner \<^verbatim>\<open>while index < len(valid_fields) and field != valid_fields[index]\<close> loop
  and the \<^verbatim>\<open>for field in fields\<close> loop around it. \<open>check_order\<close> returns the field at
  which the source raises, if any. The same scan runs over the platform tags.
\<close>

function advance :: "string list \<Rightarrow> nat \<Rightarrow> string \<Rightarrow> nat" where
  "advance valid index field =
     (if index < length valid \<and> field \<noteq> valid ! index
      then advance valid (Suc index) field else index)"
  by pat_completeness auto
termination
  by (relation "measure (\<lambda>(valid, index, field). length valid - index)") auto

declare advance.simps [simp del]

fun check_order :: "string list \<Rightarrow> nat \<Rightarrow> string list \<Rightarrow> string option" where
  "check_order valid index [] = None"
| "check_order valid index (field # fnames) =
     (let index' = advance valid index field
      in if index' = length valid then Some field else check_order valid index' fnames)"

section \<open>Decoding the fields\<close>

text \<open>
  The loop \<^verbatim>\<open>for field in fields\<close> that stores the raw and the decoded value of every
  field. \<open>multiple\<close> is what happens when the field does not match exactly once:
  \<^verbatim>\<open>utils/osg.py\<close> raises a \<^verbatim>\<open>RuntimeError\<close>, \<^verbatim>\<open>maintenance.py\<close> fails an assertion.
\<close>

fun decode_fields ::
  "(string \<Rightarrow> error) \<Rightarrow> string \<Rightarrow> string \<Rightarrow> info \<Rightarrow> string list \<Rightarrow> error + info" where
  "decode_fields multiple sep content info [] = Inr info"
| "decode_fields multiple sep content info (field # fnames) =
     (let matches = field_matches content field in
      if length matches \<noteq> 1 then Inl (multiple field)
      else (let v = hd matches;
                info1 = info\<lparr>raw := (raw info)(lower field @ ''-raw'' \<mapsto> v)\<rparr>;
                d = decode sep v
            in decode_fields multiple sep content
                 (if d = [] then info1 else info1\<lparr>vals := (vals info1)(lower field \<mapsto> d)\<rparr>)
                 fnames))"

section \<open>Checks on the content of the fields\<close>

text \<open>
  \<^verbatim>\<open>if 'beta' in v != 'mature' in v\<close> is a chain of comparisons: Python evaluates it as
  \<^verbatim>\<open>('beta' in v) and (v != 'mature') and ('mature' in v)\<close>. The middle comparison is
  between a list and a string, which are never equal.
\<close>

definition list_ne_str :: "string list \<Rightarrow> string \<Rightarrow> bool" where
  "list_ne_str v s = True"

definition unknown_state_tag :: "string \<Rightarrow> bool" where
  "unknown_state_tag t =
     (t \<noteq> ''beta'' \<and> t \<noteq> ''mature'' \<and> \<not> startswith t ''inactive since '')"

definition check_state :: "string list \<Rightarrow> error option" where
  "check_state v =
     (case List.find unknown_state_tag v of
        Some t \<Rightarrow> Some (UnknownStateTag t)
      | None \<Rightarrow>
          if ''beta'' \<in> set v \<and> list_ne_str v ''mature'' \<and> ''mature'' \<in> set v
          then Some StateNotOne else None)"

definition phrase :: string where
  "phrase = ''inactive since ''"

definition inactive_year :: "string list \<Rightarrow> string list" where
  "inactive_year v = map (drop (length phrase)) (filter (\<lambda>x. startswith x phrase) v)"

text \<open>The first error of a loop that raises on the first element that fails.\<close>

fun first_error :: "('a \<Rightarrow> error option) \<Rightarrow> 'a list \<Rightarrow> error option" where
  "first_error f [] = None"
| "first_error f (x # xs) = (case f x of Some e \<Rightarrow> Some e | None \<Rightarrow> first_error f xs)"

definition url_schemes :: "string list" where
  "url_schemes = [''http://'', ''https://'', ''git://'', ''svn://'', ''ftp://'', ''bzr://'']"

definition check_url :: "string \<Rightarrow> error option" where
  "check_url url =
     (if \<not> list_ex (startswith url) url_schemes then Some (UrlScheme url)
      else if CHR '' '' \<in> set url then Some (UrlSpace url)
      else None)"

definition url_fields :: "string list" where
  "url_fields = [''home'', ''download'', ''play'', ''code repository'']"

definition field_values :: "'a info_scheme \<Rightarrow> string \<Rightarrow> string list" where
  "field_values info field = (case vals info field of None \<Rightarrow> [] | Some v \<Rightarrow> v)"

text \<open>
  The checks of \<^verbatim>\<open>utils/osg.py\<close> after the fields are decoded, from the second test of the
  essential fields to the end. The \<^verbatim>\<open>print('Warning: ...')\<close> statements change neither
  the dictionary nor the error raised and are left out.
\<close>

definition still_essential :: "string list" where
  "still_essential = [''home'', ''state'', ''keywords'', ''code language'', ''code license'']"

definition check_content :: "info \<Rightarrow> error + info" where
  "check_content info =
     (case List.find (\<lambda>field. vals info field = None) still_essential of
        Some field \<Rightarrow> Inl (EssentialFieldEmpty field)
      | None \<Rightarrow>
     (case vals info ''state'' of
        None \<Rightarrow> Inl (KeyError ''state'')
      | Some v \<Rightarrow>
     (case check_state v of
        Some e \<Rightarrow> Inl e
      | None \<Rightarrow>
     (if length (inactive_year v) > 1 then Inl AssertionError
      else
     (let info1 = (if inactive_year v \<noteq> [] then info\<lparr>inactive := Some (hd (inactive_year v))\<rparr>
                   else info)
      in
     (case first_error check_url (concat (map (field_values info1) url_fields)) of
        Some e \<Rightarrow> Inl e
      | None \<Rightarrow>
     (case check_order valid_platforms 0 (field_values info1 ''platform'') of
        Some platform \<Rightarrow> Inl (PlatformOrder platform)
      | None \<Rightarrow>
     (case vals info1 ''keywords'' of
        None \<Rightarrow> Inl NoKeyword
      | Some keywords \<Rightarrow>
     (if \<not> list_ex (\<lambda>k. k \<in> set keywords) recommended_keywords then Inl NoRecommendedKeyword
      else Inr info1)))))))))"

section \<open>\<^verbatim>\<open>parse_entry\<close> of \<^verbatim>\<open>utils/osg.py\<close>\<close>

text \<open>Both modules define a \<^verbatim>\<open>parse_entry\<close>; the module is put in front of the name.\<close>

definition empty_info :: "string \<Rightarrow> string \<Rightarrow> info" where
  "empty_info n d =
     \<lparr>title = n, description = d, raw = Map.empty, vals = Map.empty, inactive = None\<rparr>"

text \<open>
  The function is written in two parts: what it does before the loop that decodes the
  fields (the name, the description, the field names, and the checks of presence and of
  order), and the whole.
\<close>

definition osg_read_fields :: "string \<Rightarrow> error + info \<times> string list" where
  "osg_read_fields content =
     (let names = name_matches content in
      if length names \<noteq> 1 \<or> hd names = [] then Inl NameNotFound
      else
     (let descriptions = description_matches content in
      if length descriptions \<noteq> 1 \<or> hd descriptions = [] then Inl DescriptionNotFound
      else
     (let fnames = field_names content in
      case List.find (\<lambda>field. field \<notin> set fnames) essential_fields of
        Some field \<Rightarrow> Inl (EssentialFieldMissing field)
      | None \<Rightarrow>
     (case check_order valid_fields 0 fnames of
        Some field \<Rightarrow> Inl (FieldOrder field)
      | None \<Rightarrow> Inr (empty_info (hd names) (hd descriptions), fnames)))))"

definition osg_parse_entry :: "string \<Rightarrow> error + info" where
  "osg_parse_entry content =
     (case osg_read_fields content of
        Inl e \<Rightarrow> Inl e
      | Inr (info, fnames) \<Rightarrow>
     (case decode_fields FieldMultiple strict_sep content info fnames of
        Inl e \<Rightarrow> Inl e
      | Inr info1 \<Rightarrow> check_content info1))"

section \<open>\<^verbatim>\<open>parse_entry\<close> of \<^verbatim>\<open>maintenance.py\<close>\<close>

text \<open>The lists that \<^verbatim>\<open>parse_entry\<close> of \<^verbatim>\<open>maintenance.py\<close> defines locally.\<close>

definition maintenance_essential_fields :: "string list" where
  "maintenance_essential_fields = [''Home'', ''State'', ''Code repository'', ''Code language'']"

definition maintenance_valid_fields :: "string list" where
  "maintenance_valid_fields =
     [''Home'', ''Media'', ''State'', ''Play'', ''Download'', ''Platform'', ''Keywords'',
      ''Code repository'', ''Code language'', ''Code license'', ''Code dependencies'',
      ''Assets license'', ''Build system'', ''Build instructions'']"

definition maintenance_valid_platforms :: "string list" where
  "maintenance_valid_platforms = [''Android'', ''Windows'', ''Linux'', ''macOS'', ''Browser'']"

text \<open>
  This \<^verbatim>\<open>parse_entry\<close> reports an error by printing a line that starts with
  \<^verbatim>\<open>Error:\<close> and returning the dictionary as far as it is filled: the result
  \<open>Inr (info, Some e)\<close>. A failed \<^verbatim>\<open>assert\<close> or a missing key ends the call with an
  exception: the result \<open>Inl e\<close>. The other \<^verbatim>\<open>print\<close> statements (on URLs) are left out.
\<close>

definition maintenance_check_content :: "info \<Rightarrow> error + info \<times> error option" where
  "maintenance_check_content info =
     (case vals info ''state'' of
        None \<Rightarrow> Inl (KeyError ''state'')
      | Some v \<Rightarrow>
     (case check_state v of
        Some e \<Rightarrow> Inr (info, Some e)
      | None \<Rightarrow>
     (if length (inactive_year v) > 1 then Inl AssertionError
      else
     (let info1 = (if inactive_year v \<noteq> [] then info\<lparr>inactive := Some (hd (inactive_year v))\<rparr>
                   else info)
      in
     (case List.find (\<lambda>platform. platform \<notin> set maintenance_valid_platforms)
             (field_values info1 ''platform'') of
        Some platform \<Rightarrow> Inr (info1, Some (InvalidPlatform platform))
      | None \<Rightarrow> Inr (info1, None))))))"

definition maintenance_parse_entry :: "string \<Rightarrow> error + info \<times> error option" where
  "maintenance_parse_entry content =
     (let titles = name_matches content in
      if length titles \<noteq> 1 then Inl AssertionError
      else if hd titles = [] then Inl AssertionError
      else
     (let descriptions = description_matches content in
      if length descriptions \<noteq> 1 then Inl AssertionError
      else if hd descriptions = [] then Inl AssertionError
      else
     (let info = empty_info (hd titles) (hd descriptions);
          fnames = field_names content
      in
      case List.find (\<lambda>field. field \<notin> set fnames) maintenance_essential_fields of
        Some field \<Rightarrow> Inr (info, Some (EssentialFieldMissing field))
      | None \<Rightarrow>
     (case check_order maintenance_valid_fields 0 fnames of
        Some field \<Rightarrow> Inr (info, Some (FieldOrder field))
      | None \<Rightarrow>
     (case decode_fields (\<lambda>field. AssertionError) lenient_sep content info fnames of
        Inl e \<Rightarrow> Inl e
      | Inr info1 \<Rightarrow> maintenance_check_content info1)))))"

text \<open>
  \<^verbatim>\<open>assemble_infos\<close> adds the keys \<^verbatim>\<open>'category'\<close>, \<^verbatim>\<open>'file'\<close> and \<^verbatim>\<open>'path'\<close> to every
  dictionary that \<^verbatim>\<open>parse_entry\<close> returns, and the functions below read the global
  \<^verbatim>\<open>infos\<close> through \<^verbatim>\<open>infos.values()\<close>: a list of such dictionaries, in the order of
  insertion. The key \<^verbatim>\<open>'file'\<close> is the component \<open>file_name\<close>.
\<close>

record entry = info +
  category :: string
  file_name :: string
  path :: string

definition assemble_info :: "string \<Rightarrow> string \<Rightarrow> string \<Rightarrow> info \<Rightarrow> entry" where
  "assemble_info c f p info =
     \<lparr>title = title info, description = description info, raw = raw info, vals = vals info,
      inactive = inactive info, category = c, file_name = f, path = p\<rparr>"

section \<open>Python floats\<close>

text \<open>
  A Python float is an IEEE 754 binary64 number, and is modelled by its value, a rational.
  \<open>float_round x\<close> is the binary64 number nearest to \<open>x\<close>, the one with the even
  significand when two are equally near: the significand has 53 bits, so the result is a
  multiple of \<open>2\<close> to the power \<open>e - 52\<close>, where \<open>2\<close> to the power \<open>e\<close> is the largest power
  of two that is not above the absolute value of \<open>x\<close>. The exponent range of binary64 is
  not modelled: the numbers rounded here are a count divided by a length and such a
  quotient times 100, which keeps them far from it.
\<close>

definition pow2 :: "int \<Rightarrow> rat" where
  "pow2 e = (if 0 \<le> e then 2 ^ nat e else 1 / 2 ^ nat (- e))"

definition round_half_even :: "rat \<Rightarrow> int" where
  "round_half_even x =
     (let f = \<lfloor>x\<rfloor>; d = x - of_int f
      in if d < 1 / 2 then f
         else if 1 / 2 < d then f + 1
         else if even f then f else f + 1)"

definition exponent :: "rat \<Rightarrow> int" where
  "exponent x =
     (let (a, b) = quotient_of x;
          e = bitlen a - bitlen b
      in if pow2 e \<le> x then e else e - 1)"

definition float_round :: "rat \<Rightarrow> rat" where
  "float_round x =
     (if x = 0 then 0
      else (let u = pow2 (exponent \<bar>x\<bar> - 52)
            in sgn x * of_int (round_half_even (\<bar>x\<bar> / u)) * u))"

text \<open>
  \<^verbatim>\<open>a / b\<close> on two integers is the float nearest to the quotient, and \<^verbatim>\<open>x * y\<close> on
  floats the float nearest to the product. \<^verbatim>\<open>'{:.1f}'.format(x)\<close> prints the decimal
  number with one digit after the point that is nearest to \<open>x\<close>, the even one of two
  equally near: \<open>format_1f x\<close> is that number in tenths.
\<close>

definition truediv :: "int \<Rightarrow> int \<Rightarrow> rat" where
  "truediv a b = float_round (of_int a / of_int b)"

definition float_mul :: "rat \<Rightarrow> rat \<Rightarrow> rat" where
  "float_mul x y = float_round (x * y)"

definition format_1f :: "rat \<Rightarrow> int" where
  "format_1f x = round_half_even (x * 10)"

section \<open>\<^verbatim>\<open>generate_statistics\<close>\<close>

text \<open>
  The function builds the text of the statistics page; the model returns the numbers and
  lists the text is formatted from. The quotients are floats, as in the source, and a
  frequency \<open>f\<close> is shown as \<^verbatim>\<open>'{:.1f}'.format(f*100)\<close>: \<open>percentage f\<close> is the number
  shown, in tenths of a percent.

  \<^verbatim>\<open>list.sort(key=..., reverse=True)\<close> keeps elements with equal keys in their order:
  it sorts the reversed list and reverses the result. \<^verbatim>\<open>list.sort\<close> and \<open>sort_key\<close> are
  both stable.
\<close>

definition percentage :: "rat \<Rightarrow> int" where
  "percentage f = format_1f (float_mul f 100)"

definition sort_key_reverse :: "('a \<Rightarrow> 'k::linorder) \<Rightarrow> 'a list \<Rightarrow> 'a list" where
  "sort_key_reverse k xs = rev (sort_key k (rev xs))"

text \<open>\<^verbatim>\<open>for info in infois: if field in info: values.extend(info[field])\<close>\<close>

definition all_values :: "string \<Rightarrow> entry list \<Rightarrow> string list" where
  "all_values field infois = concat (map (\<lambda>info. field_values info field) infois)"

text \<open>
  \<^verbatim>\<open>[(l, values.count(l) / len(values)) for l in set(values)]\<close>. The order in which the
  set is traversed does not matter: the list is sorted by name next, and the names are
  distinct.
\<close>

definition frequencies :: "string list \<Rightarrow> (string \<times> rat) list" where
  "frequencies xs =
     map (\<lambda>l. (l, truediv (int (count_list xs l)) (int (length xs)))) (remdups xs)"

definition popular_code_repositories :: "string list" where
  "popular_code_repositories =
     [''github.com'', ''gitlab.com'', ''bitbucket.org'', ''code.sf.net'', ''code.launchpad.net'']"

definition c_or_cpp :: "entry \<Rightarrow> bool" where
  "c_or_cpp info =
     (''C'' \<in> set (field_values info ''code language'')
      \<or> ''C++'' \<in> set (field_values info ''code language''))"

record statistics =
  number_entries :: nat
  number_state_beta :: nat
  number_state_mature :: nat
  number_inactive :: nat
  rel_state_mature :: rat
  rel_state_beta :: rat
  rel_inactive :: rat
  entries_inactive :: "(string \<times> string) list"
  unique_languages :: "(string \<times> rat) list"
  entries_no_license :: "string list"
  unique_licenses :: "(string \<times> rat) list"
  unique_keywords :: "(string \<times> rat) list"
  entries_no_download_play :: "string list"
  entries_not_popular :: "string list"
  build_systems_available :: rat
  unique_build_systems :: "(string \<times> rat) list"
  c_cpp_project_without_build_system :: "string list"
  c_cpp_project_not_cmake :: "string list"
  unique_platforms :: "(string \<times> rat) list"

text \<open>
  \<open>statistics_page\<close> is what the function computes when no exception is raised;
  \<open>entries_inactive\<close> is the sorted list of pairs, before each is formatted as
  \<^verbatim>\<open>'{} ({})'\<close>. \<open>generate_statistics\<close> puts the exceptions in front, in the order in
  which the source would raise them: \<^verbatim>\<open>x['state']\<close> in the first count, the division by
  \<^verbatim>\<open>number_entries\<close> in \<^verbatim>\<open>rel\<close>, and \<^verbatim>\<open>info['code language']\<close> in the two lists of C
  and C++ projects, which Python reads only when the test in front of it holds.
\<close>

definition statistics_page :: "entry list \<Rightarrow> statistics" where
  "statistics_page infois =
     (let rel = (\<lambda>x :: nat. float_mul (truediv (int x) (int (length infois))) 100);
          beta = length (filter (\<lambda>x. ''beta'' \<in> set (field_values x ''state'')) infois);
          mature = length (filter (\<lambda>x. ''mature'' \<in> set (field_values x ''state'')) infois);
          inact = length (filter (\<lambda>x. inactive x \<noteq> None) infois);
          build_systems = all_values ''build system'' infois
      in
        \<lparr>number_entries = length infois,
         number_state_beta = beta,
         number_state_mature = mature,
         number_inactive = inact,
         rel_state_mature = rel mature,
         rel_state_beta = rel beta,
         rel_inactive = rel inact,
         entries_inactive =
           sort_key_reverse snd (sort_key fst
             (map (\<lambda>x. (title x, the (inactive x))) (filter (\<lambda>x. inactive x \<noteq> None) infois))),
         unique_languages =
           sort_key_reverse snd (sort_key fst (frequencies (all_values ''code language'' infois))),
         entries_no_license =
           sort (map title (filter (\<lambda>x. vals x ''code license'' = None) infois)),
         unique_licenses =
           sort_key (\<lambda>x. - snd x)
             (sort_key fst (frequencies (all_values ''code license'' infois))),
         unique_keywords =
           sort_key (\<lambda>x. - snd x) (sort_key fst (frequencies (all_values ''keywords'' infois))),
         entries_no_download_play =
           sort (map title
             (filter (\<lambda>info. vals info ''download'' = None \<and> vals info ''play'' = None) infois)),
         entries_not_popular =
           sort (map title
             (filter (\<lambda>info. vals info ''code repository'' \<noteq> None
                        \<and> \<not> list_ex (\<lambda>repo. list_ex (contains repo) popular_code_repositories)
                              (field_values info ''code repository'')) infois)),
         build_systems_available =
           float_mul (truediv (int (length build_systems)) (int (length infois))) 100,
         unique_build_systems =
           sort_key (\<lambda>x. - snd x) (sort_key fst (frequencies build_systems)),
         c_cpp_project_without_build_system =
           sort (map title
             (filter (\<lambda>info. vals info ''build system'' = None \<and> c_or_cpp info) infois)),
         c_cpp_project_not_cmake =
           sort (map title
             (filter (\<lambda>info. vals info ''build system'' \<noteq> None
                        \<and> ''CMake'' \<in> set (field_values info ''build system'')
                        \<and> c_or_cpp info) infois)),
         unique_platforms =
           sort_key (\<lambda>x. - snd x) (sort_key fst (frequencies (all_values ''platform'' infois)))\<rparr>)"

definition generate_statistics :: "entry list \<Rightarrow> error + statistics" where
  "generate_statistics infois =
     (if list_ex (\<lambda>x. vals x ''state'' = None) infois then Inl (KeyError ''state'')
      else if length infois = 0 then Inl ZeroDivisionError
      else if list_ex (\<lambda>info. vals info ''build system'' = None
                               \<and> vals info ''code language'' = None) infois
        then Inl (KeyError ''code language'')
      else if list_ex (\<lambda>info. vals info ''build system'' \<noteq> None
                               \<and> ''CMake'' \<in> set (field_values info ''build system'')
                               \<and> vals info ''code language'' = None) infois
        then Inl (KeyError ''code language'')
      else Inr (statistics_page infois))"

section \<open>\<^verbatim>\<open>export_json\<close>\<close>

definition dq :: string where
  "dq = [CHR 0x22]"

fun join :: "string \<Rightarrow> string list \<Rightarrow> string" where
  "join sep [] = []"
| "join sep [x] = x"
| "join sep (x # y # ys) = x @ sep @ join sep (y # ys)"

definition games_url :: string where
  "games_url = ''https://github.com/Trilarion/opensourcegames/blob/master/games/''"

text \<open>
  One row of the table. \<^verbatim>\<open>textwrap.shorten\<close> belongs to Python's standard library and is
  the parameter \<open>shorten\<close>, already applied to the width and the placeholder. A value stored
  under a field is never the empty list, so \<^verbatim>\<open>info[field][0]\<close> cannot fail where the key
  is present; the model still says what an empty list would do.
\<close>

definition export_entry :: "(string \<Rightarrow> string) \<Rightarrow> entry \<Rightarrow> error + string list" where
  "export_entry shorten info =
     (case vals info ''home'' of
        None \<Rightarrow> Inl (KeyError ''home'')
      | Some home \<Rightarrow>
     (if home = [] then Inl IndexError
      else
     (case vals info ''state'' of
        None \<Rightarrow> Inl (KeyError ''state'')
      | Some state \<Rightarrow>
     (if state = [] then Inl IndexError
      else Inr
        [title info @ '' (<a href='' @ dq @ hd home @ dq @ ''>home</a>, <a href='' @ dq
           @ games_url @ path info @ dq @ ''>entry</a>)'',
         shorten (description info),
         (if field_values info ''download'' \<noteq> []
          then ''<a href='' @ dq @ hd (field_values info ''download'') @ dq @ ''>Link</a>''
          else []),
         category info,
         hd state @ '' / ''
           @ (case inactive info of
                Some year \<Rightarrow> ''inactive since '' @ year
              | None \<Rightarrow> ''active''),
         (if field_values info ''keywords'' \<noteq> []
          then join '', '' (field_values info ''keywords'') else []),
         join '' - ''
           ((if field_values info ''code repository'' \<noteq> []
             then [''<a href='' @ dq @ hd (field_values info ''code repository'') @ dq
                   @ ''>Source</a>'']
             else [])
            @ (if field_values info ''code language'' \<noteq> []
               then [join '', '' (field_values info ''code language'')] else [])
            @ (if field_values info ''code license'' \<noteq> []
               then [hd (field_values info ''code license'')] else []))]))))"

text \<open>The loop over \<^verbatim>\<open>infos.values()\<close>: the first exception ends it.\<close>

fun export_entries :: "(string \<Rightarrow> string) \<Rightarrow> entry list \<Rightarrow> error + string list list" where
  "export_entries shorten [] = Inr []"
| "export_entries shorten (info # infois) =
     (case export_entry shorten info of
        Inl e \<Rightarrow> Inl e
      | Inr row \<Rightarrow>
          (case export_entries shorten infois of
             Inl e \<Rightarrow> Inl e
           | Inr rows \<Rightarrow> Inr (row # rows)))"

record db =
  headings :: "string list"
  data :: "string list list"

definition export_json :: "(string \<Rightarrow> string) \<Rightarrow> entry list \<Rightarrow> error + db" where
  "export_json shorten infois =
     (case export_entries shorten infois of
        Inl e \<Rightarrow> Inl e
      | Inr entries \<Rightarrow> Inr
          \<lparr>headings = [''Game'', ''Description'', ''Download'', ''Category'', ''State'',
                       ''Keywords'', ''Source''],
           data = sort_key (\<lambda>x. x ! 0) entries\<rparr>)"

section \<open>The repository classifier\<close>

text \<open>
  The four tests return the URL or \<^verbatim>\<open>None\<close>. The third test of \<^verbatim>\<open>svn_repo\<close> compares
  with \<^verbatim>\<open>is\<close>, the identity of objects: it can hold only for an equal string, and whether
  the interpreter shares the object is the parameter \<open>same\<close>.
\<close>

definition git_services :: "string list" where
  "git_services =
     [''https://git.tuxfamily.org/'', ''http://git.pond.sub.org/'', ''https://gitorious.org/'',
      ''https://git.code.sf.net/p/'']"

definition git_repo :: "string \<Rightarrow> string option" where
  "git_repo repo =
     (if (startswith repo ''https://'' \<or> startswith repo ''http://'') \<and> endswith repo ''.git''
      then Some repo
      else if list_ex (startswith repo) git_services then Some repo
      else None)"

definition svn_repo :: "bool \<Rightarrow> string \<Rightarrow> string option" where
  "svn_repo same repo =
     (if startswith repo ''https://svn.code.sf.net/p/'' \<and> endswith repo ''/code/'' then Some repo
      else if startswith repo ''http://svn.uktrainsim.com/svn/'' then Some repo
      else if same \<and> repo = ''https://rpg.hamsterrepublic.com/source/wip'' then Some repo
      else None)"

definition hg_repo :: "string \<Rightarrow> string option" where
  "hg_repo repo =
     (if startswith repo ''https://bitbucket.org/'' \<and> \<not> endswith repo ''.git'' then Some repo
      else if startswith repo ''http://hg.'' then Some repo
      else None)"

definition bzr_repo :: "string \<Rightarrow> string option" where
  "bzr_repo repo =
     (if startswith repo ''https://code.launchpad.net/'' then Some repo else None)"

text \<open>\<^verbatim>\<open>if url:\<close> holds for a string that is not empty.\<close>

definition truthy :: "string option \<Rightarrow> bool" where
  "truthy url = (case url of None \<Rightarrow> False | Some u \<Rightarrow> u \<noteq> [])"

record primary_repos =
  git :: "string list"
  svn :: "string list"
  hg :: "string list"
  bzr :: "string list"

text \<open>
  The body of \<^verbatim>\<open>for repo in repos\<close>, on the dictionary of lists and the flag
  \<^verbatim>\<open>consumed\<close>, and the loop.
\<close>

definition consume_repo ::
  "bool \<Rightarrow> primary_repos \<times> bool \<Rightarrow> string \<Rightarrow> primary_repos \<times> bool" where
  "consume_repo same state repo0 =
     (let (repos, consumed) = state;
          repo = strip (remove_parens repo0)
      in if truthy (git_repo repo)
           then (repos\<lparr>git := git repos @ [the (git_repo repo)]\<rparr>, True)
         else if truthy (svn_repo same repo)
           then (repos\<lparr>svn := svn repos @ [the (svn_repo same repo)]\<rparr>, True)
         else if truthy (hg_repo repo)
           then (repos\<lparr>hg := hg repos @ [the (hg_repo repo)]\<rparr>, True)
         else if truthy (bzr_repo repo)
           then (repos\<lparr>bzr := bzr repos @ [the (bzr_repo repo)]\<rparr>, True)
         else (repos, consumed))"

text \<open>\<^verbatim>\<open>repos[0:1]\<close> followed by the later pieces that contain \<^verbatim>\<open>"(+)"\<close>.\<close>

definition retained_repos :: "string \<Rightarrow> string list" where
  "retained_repos field_raw =
     (let repos = split '','' field_raw
      in take 1 repos @ filter (\<lambda>x. contains x ''(+)'') (drop 1 repos))"

text \<open>
  The body of \<^verbatim>\<open>for info in infos.values()\<close>, on the dictionary of lists and the list
  \<^verbatim>\<open>unconsumed_entries\<close>.
\<close>

definition consume_info ::
  "bool \<Rightarrow> primary_repos \<times> (string \<times> string) list \<Rightarrow> entry
     \<Rightarrow> primary_repos \<times> (string \<times> string) list" where
  "consume_info same state info =
     (let (repos, unconsumed_entries) = state
      in case raw info ''code repository-raw'' of
           None \<Rightarrow> (repos, unconsumed_entries)
         | Some field_raw \<Rightarrow>
             (let (repos1, consumed) =
                    (if field_raw \<noteq> []
                     then foldl (consume_repo same) (repos, False) (retained_repos field_raw)
                     else (repos, False))
              in if \<not> consumed then (repos1, unconsumed_entries @ [(title info, field_raw)])
                 else (repos1, unconsumed_entries)))"

text \<open>
  The whole function, up to the point where it writes the file: the dictionary with every
  list replaced by \<^verbatim>\<open>sorted(set(v))\<close>, and the local list \<^verbatim>\<open>unconsumed_entries\<close>.
\<close>

definition update_primary_code_repositories ::
  "bool \<Rightarrow> entry list \<Rightarrow> primary_repos \<times> (string \<times> string) list" where
  "update_primary_code_repositories same infois =
     (let (repos, unconsumed_entries) =
            foldl (consume_info same) (\<lparr>git = [], svn = [], hg = [], bzr = []\<rparr>, []) infois
      in (\<lparr>git = sort (remdups (git repos)), svn = sort (remdups (svn repos)),
           hg = sort (remdups (hg repos)), bzr = sort (remdups (bzr repos))\<rparr>,
          unconsumed_entries))"

section \<open>Canonical rank\<close>

text \<open>
  The rank of a field name in a canonical list is its position there; a name that is not
  in the list gets the length of the list.
\<close>

definition canonical_rank :: "string list \<Rightarrow> string \<Rightarrow> nat" where
  "canonical_rank valid field = length (takeWhile (\<lambda>v. v \<noteq> field) valid)"

section \<open>Example entries\<close>

definition unlines :: "string list \<Rightarrow> string" where
  "unlines ls = concat (map (\<lambda>l. l @ [nl]) ls)"

definition example_content :: "string list \<Rightarrow> string" where
  "example_content field_lines = unlines ([''# Game'', [], ''_A game._'', []] @ field_lines)"

definition entry_inactive_only :: string where
  "entry_inactive_only = example_content
     [''- Home: https://example.com'',
      ''- State: inactive since 2019'',
      ''- Keywords: action'',
      ''- Code repository: https://example.com/game.git'',
      ''- Code language: C'',
      ''- Code license: MIT'']"

definition entry_misordered :: string where
  "entry_misordered = example_content
     [''- Code language: C'',
      ''- Home: https://example.com'',
      ''- State: beta'',
      ''- Keywords: action'',
      ''- Code repository: https://example.com/game.git'',
      ''- Code license: MIT'']"

definition entry_duplicate :: string where
  "entry_duplicate = example_content
     [''- Home: https://example.com'',
      ''- Home: https://example.org'',
      ''- State: beta'',
      ''- Keywords: action'',
      ''- Code repository: https://example.com/game.git'',
      ''- Code language: C'',
      ''- Code license: MIT'']"

definition entry_empty_repository :: string where
  "entry_empty_repository = example_content
     [''- Home: https://example.com'',
      ''- State: beta'',
      ''- Keywords: action'',
      ''- Code repository: (see download)'',
      ''- Code language: C'',
      ''- Code license: MIT'']"

definition entry_empty_license :: string where
  "entry_empty_license = example_content
     [''- Home: https://example.com'',
      ''- State: beta'',
      ''- Keywords: action'',
      ''- Code repository: https://example.com/game.git'',
      ''- Code language: C'',
      ''- Code license: (unknown)'']"

definition example_entry ::
  "string \<Rightarrow> (string \<times> string list) list \<Rightarrow> (string \<times> string) list \<Rightarrow> string option
     \<Rightarrow> entry" where
  "example_entry t vs rs i =
     \<lparr>title = t, description = ''A game.'', raw = map_of rs, vals = map_of vs, inactive = i,
      category = ''Games'', file_name = ''game'', path = ''games/game.md''\<rparr>"

definition entry_parenthesis :: string where
  "entry_parenthesis = ''a (b)''"

section \<open>Auxiliary notions\<close>

text \<open>
  A string in which \<^verbatim>\<open>\([^)]*\)\<close> has a match: an opening parenthesis with a closing
  one somewhere after it.
\<close>

fun has_paren :: "string \<Rightarrow> bool" where
  "has_paren [] = False"
| "has_paren (c # cs) = ((c = CHR ''('' \<and> CHR '')'' \<in> set cs) \<or> has_paren cs)"

text \<open>A value that \<open>unwrap\<close> changes: it starts with \<^verbatim>\<open><\<close> and ends with \<^verbatim>\<open>>\<close>.\<close>

definition bracketed :: "string \<Rightarrow> bool" where
  "bracketed x = (x \<noteq> [] \<and> hd x = CHR ''<'' \<and> last x = CHR ''>'')"

text \<open>
  A piece of a repository field is classified when, with its parentheses removed and
  stripped, one of the four tests returns it.
\<close>

definition classified :: "bool \<Rightarrow> string \<Rightarrow> bool" where
  "classified same repo0 =
     (let repo = strip (remove_parens repo0)
      in truthy (git_repo repo) \<or> truthy (svn_repo same repo) \<or> truthy (hg_repo repo)
         \<or> truthy (bzr_repo repo))"

text \<open>
  The classification of one URL in the words of the specification: the four tests in the
  fixed order git, svn, hg, bzr, of which the first that returns the URL decides, and the
  list of that system takes the URL.
\<close>

datatype vcs = Git | Svn | Hg | Bzr

definition priority :: "bool \<Rightarrow> (vcs \<times> (string \<Rightarrow> string option)) list" where
  "priority same = [(Git, git_repo), (Svn, svn_repo same), (Hg, hg_repo), (Bzr, bzr_repo)]"

definition first_match :: "bool \<Rightarrow> string \<Rightarrow> vcs option" where
  "first_match same repo =
     map_option fst (List.find (\<lambda>p. truthy (snd p repo)) (priority same))"

fun file_under :: "vcs \<Rightarrow> string \<Rightarrow> primary_repos \<Rightarrow> primary_repos" where
  "file_under Git url repos = repos\<lparr>git := git repos @ [url]\<rparr>"
| "file_under Svn url repos = repos\<lparr>svn := svn repos @ [url]\<rparr>"
| "file_under Hg url repos = repos\<lparr>hg := hg repos @ [url]\<rparr>"
| "file_under Bzr url repos = repos\<lparr>bzr := bzr repos @ [url]\<rparr>"

text \<open>
  The retained URLs of all records, in the order in which the classifier meets them, each
  with its parentheses removed and stripped.
\<close>

definition retained_urls :: "entry list \<Rightarrow> string list" where
  "retained_urls infois =
     concat (map (\<lambda>info.
       (case raw info ''code repository-raw'' of
          None \<Rightarrow> []
        | Some field_raw \<Rightarrow>
            if field_raw \<noteq> []
            then map (\<lambda>repo. strip (remove_parens repo)) (retained_repos field_raw)
            else [])) infois)"

fun repos_of :: "vcs \<Rightarrow> primary_repos \<Rightarrow> string list" where
  "repos_of Git repos = git repos"
| "repos_of Svn repos = svn repos"
| "repos_of Hg repos = hg repos"
| "repos_of Bzr repos = bzr repos"

definition filed :: "bool \<Rightarrow> vcs \<Rightarrow> string list \<Rightarrow> string list" where
  "filed same k urls = filter (\<lambda>url. first_match same url = Some k) urls"

text \<open>The state summary of the export, in the words of the specification.\<close>

definition state_summary :: "entry \<Rightarrow> string" where
  "state_summary info =
     hd (field_values info ''state'') @ '' / ''
       @ (case inactive info of
            Some year \<Rightarrow> ''inactive since '' @ year
          | None \<Rightarrow> ''active'')"

section \<open>Example record sets\<close>

definition infos_classified :: "entry list" where
  "infos_classified =
     [example_entry ''G'' [] [(''code repository-raw'', ''https://github.com/x/y.git'')] None,
      example_entry ''H'' [] [(''code repository-raw'', ''https://bitbucket.org/x/y'')] None,
      example_entry ''B'' [] [(''code repository-raw'', ''https://code.launchpad.net/x'')] None,
      example_entry ''E'' [] [(''code repository-raw'', ''https://example.com/x'')] None]"

definition infos_mixed :: "entry list" where
  "infos_mixed =
     [example_entry ''M'' []
        [(''code repository-raw'', ''https://github.com/x/y.git, https://example.com/x (+)'')]
        None]"

definition infos_inactive :: "entry list" where
  "infos_inactive =
     [example_entry ''B''
        [(''home'', [''https://example.com/b'']), (''state'', [''beta'', ''inactive since 2018'']),
         (''keywords'', [''action'', ''puzzle'']), (''code language'', [''C''])]
        [] (Some ''2018''),
      example_entry ''A''
        [(''home'', [''https://example.com/a'']), (''state'', [''beta'', ''inactive since 2020'']),
         (''keywords'', [''puzzle'', ''strategy'']), (''code language'', [''C''])]
        [] (Some ''2020''),
      example_entry ''C''
        [(''home'', [''https://example.com/c'']),
         (''state'', [''mature'', ''inactive since 2020'']),
         (''keywords'', [''puzzle'']), (''code language'', [''C'', ''C++''])]
        [] (Some ''2020'')]"

definition infos_export :: "entry list" where
  "infos_export =
     [example_entry ''B''
        [(''home'', [''https://example.com/b'']), (''state'', [''beta'', ''inactive since 2018''])]
        [] (Some ''2018''),
      example_entry ''A''
        [(''home'', [''https://example.com/a'']), (''state'', [''mature''])]
        [] None]"

definition infos_priority :: "entry list" where
  "infos_priority =
     [example_entry ''S'' [] [(''code repository-raw'', ''https://svn.code.sf.net/p/x/code/'')]
        None,
      example_entry ''T'' []
        [(''code repository-raw'',
          ''http://svn.uktrainsim.com/svn/x, http://svn.uktrainsim.com/svn/y.git (+)'')] None,
      example_entry ''L'' [] [(''code repository-raw'', ''https://code.launchpad.net/x.git'')]
        None,
      example_entry ''K'' [] [(''code repository-raw'', ''http://hg.example.org/r.git'')] None,
      example_entry ''J'' [] [(''code repository-raw'', ''http://hg.example.org/r (hg)'')] None]"

definition infos_thirds :: "entry list" where
  "infos_thirds =
     [example_entry ''A''
        [(''state'', [''beta'']), (''keywords'', [''action'']), (''code language'', [''C''])]
        [] None,
      example_entry ''B''
        [(''state'', [''beta'']), (''keywords'', [''puzzle'']), (''code language'', [''C''])]
        [] None,
      example_entry ''C''
        [(''state'', [''mature'']), (''keywords'', [''strategy'']), (''code language'', [''C''])]
        [] None]"

section \<open>Properties of the order check\<close>

lemma advance_step:
  "index < length valid \<Longrightarrow> field \<noteq> valid ! index \<Longrightarrow>
   advance valid index field = advance valid (Suc index) field"
  by (subst advance.simps) simp

lemma advance_found:
  "index < length valid \<Longrightarrow> field = valid ! index \<Longrightarrow> advance valid index field = index"
  by (subst advance.simps) simp

lemma advance_end: "length valid \<le> index \<Longrightarrow> advance valid index field = index"
  by (subst advance.simps) simp

lemma length_takeWhile_less_iff:
  "length (takeWhile P xs) < length xs \<longleftrightarrow> (\<exists>x \<in> set xs. \<not> P x)"
  by (induction xs) auto

lemma advance_takeWhile:
  "index \<le> length valid \<Longrightarrow>
   advance valid index field = index + length (takeWhile (\<lambda>v. v \<noteq> field) (drop index valid))"
proof (induction valid index field rule: advance.induct)
  case (1 valid index field)
  show ?case
  proof (cases "index < length valid")
    case False
    with "1.prems" show ?thesis by (simp add: advance_end)
  next
    case True
    then have d: "drop index valid = valid ! index # drop (Suc index) valid"
      by (simp add: Cons_nth_drop_Suc)
    show ?thesis
    proof (cases "field = valid ! index")
      case True
      with \<open>index < length valid\<close> d show ?thesis by (simp add: advance_found)
    next
      case False
      with \<open>index < length valid\<close> "1.IH" have "advance valid (Suc index) field =
          Suc index + length (takeWhile (\<lambda>v. v \<noteq> field) (drop (Suc index) valid))"
        by simp
      with False \<open>index < length valid\<close> d show ?thesis by (simp add: advance_step)
    qed
  qed
qed

lemma canonical_rank_le: "canonical_rank valid field \<le> length valid"
  by (simp add: canonical_rank_def length_takeWhile_le)

lemma canonical_rank_less_iff: "canonical_rank valid field < length valid \<longleftrightarrow> field \<in> set valid"
  by (auto simp: canonical_rank_def length_takeWhile_less_iff)

lemma advance_rank:
  assumes "distinct valid" "index \<le> length valid"
  shows "advance valid index field =
           (if index \<le> canonical_rank valid field then canonical_rank valid field
            else length valid)"
proof (cases "field \<in> set (take index valid)")
  case True
  from assms(1) have "distinct (take index valid @ drop index valid)" by simp
  with True have "field \<notin> set (drop index valid)"
    by (auto simp only: distinct_append)
  then have "takeWhile (\<lambda>v. v \<noteq> field) (drop index valid) = drop index valid"
    by auto
  then have "length (takeWhile (\<lambda>v. v \<noteq> field) (drop index valid)) = length valid - index"
    by (simp only: length_drop)
  moreover have "canonical_rank valid field < index"
  proof -
    have "takeWhile (\<lambda>v. v \<noteq> field) (take index valid @ drop index valid)
            = takeWhile (\<lambda>v. v \<noteq> field) (take index valid)"
      using True by (subst takeWhile_append1 [where x = field]) auto
    then have eq: "canonical_rank valid field
                     = length (takeWhile (\<lambda>v. v \<noteq> field) (take index valid))"
      by (simp add: canonical_rank_def)
    have "length (takeWhile (\<lambda>v. v \<noteq> field) (take index valid)) < length (take index valid)"
      using True by (subst length_takeWhile_less_iff) blast
    with eq show ?thesis by simp
  qed
  ultimately show ?thesis using assms(2) by (simp add: advance_takeWhile)
next
  case False
  then have "takeWhile (\<lambda>v. v \<noteq> field) (take index valid @ drop index valid)
          = take index valid @ takeWhile (\<lambda>v. v \<noteq> field) (drop index valid)"
    by (subst takeWhile_append2) auto
  then have "canonical_rank valid field = index + length (takeWhile (\<lambda>v. v \<noteq> field) (drop index valid))"
    using assms(2) by (simp add: canonical_rank_def)
  then show ?thesis using assms(2) by (simp add: advance_takeWhile)
qed

lemma check_order_None_iff:
  assumes "distinct valid"
  shows "index \<le> length valid \<Longrightarrow>
    check_order valid index fnames = None \<longleftrightarrow>
      (\<forall>f \<in> set fnames. f \<in> set valid \<and> index \<le> canonical_rank valid f)
      \<and> sorted (map (canonical_rank valid) fnames)"
proof (induction fnames arbitrary: index)
  case Nil
  show ?case by simp
next
  case (Cons f fnames)
  show ?case
  proof (cases "index \<le> canonical_rank valid f \<and> f \<in> set valid")
    case True
    then have r: "canonical_rank valid f < length valid"
      by (simp add: canonical_rank_less_iff)
    have a: "advance valid index f = canonical_rank valid f"
      using True assms Cons.prems by (simp add: advance_rank)
    have "check_order valid index (f # fnames) = check_order valid (canonical_rank valid f) fnames"
      using a r by simp
    also have "\<dots> = None \<longleftrightarrow>
       (\<forall>g \<in> set fnames. g \<in> set valid \<and> canonical_rank valid f \<le> canonical_rank valid g)
        \<and> sorted (map (canonical_rank valid) fnames)"
      using Cons.IH [of "canonical_rank valid f"] r by simp
    finally show ?thesis using True by fastforce
  next
    case False
    then have "advance valid index f = length valid"
      using assms Cons.prems canonical_rank_less_iff [of valid f] canonical_rank_le [of valid f]
      by (auto simp: advance_rank)
    then have "check_order valid index (f # fnames) = Some f" by simp
    with False show ?thesis by auto
  qed
qed

lemma advance_again: "advance valid (advance valid index field) field = advance valid index field"
proof (induction valid index field rule: advance.induct)
  case (1 valid index field)
  show ?case
  proof (cases "index < length valid")
    case False
    then show ?thesis by (simp add: advance_end)
  next
    case True
    show ?thesis
    proof (cases "field = valid ! index")
      case True
      with \<open>index < length valid\<close> show ?thesis by (simp add: advance_found)
    next
      case False
      with \<open>index < length valid\<close> "1.IH" show ?thesis by (simp add: advance_step)
    qed
  qed
qed

lemma check_order_repeat:
  "check_order valid index (xs @ f # f # ys) = check_order valid index (xs @ f # ys)"
proof (induction xs arbitrary: index)
  case Nil
  show ?case by (simp add: advance_again Let_def)
next
  case (Cons x xs)
  then show ?case by (simp add: Let_def)
qed

lemma distinct_valid_fields: "distinct valid_fields" "distinct maintenance_valid_fields"
  by (simp_all add: valid_fields_def maintenance_valid_fields_def)

section \<open>Properties of the tokenizer and of the decoding loop\<close>

lemma find_first_Some: "find_first p s = Some (b, a) \<Longrightarrow> s = b @ p @ a"
proof (induction s arbitrary: b)
  case Nil
  then show ?case by simp
next
  case (Cons c cs)
  show ?case
  proof (cases "p \<noteq> [] \<and> prefix p (c # cs)")
    case True
    with Cons.prems have "b = []" "a = drop (length p) (c # cs)" by simp_all
    moreover from True have "take (length p) (c # cs) = p"
      by (metis append_eq_conv_conj prefix_def)
    ultimately show ?thesis
      by (metis append_Nil append_take_drop_id)
  next
    case False
    with Cons.prems obtain b' where "find_first p cs = Some (b', a)" "b = c # b'"
      by (auto split: option.splits)
    with Cons.IH show ?thesis by simp
  qed
qed

lemma find_first_prefix: "p \<noteq> [] \<Longrightarrow> find_first p (p @ a) \<noteq> None"
  by (cases p) simp_all

lemma line_field_matches:
  assumes "line_field line = Some f"
  shows "find_first (''- '' @ f @ '': '') line \<noteq> None"
proof -
  from assms have p: "prefix ''- '' line"
    by (simp add: line_field_def split: if_splits)
  with assms obtain a where "find_first '': '' (drop 2 line) = Some (f, a)"
    by (auto simp: line_field_def)
  then have "drop 2 line = f @ '': '' @ a" by (rule find_first_Some)
  moreover from p have "line = ''- '' @ drop 2 line"
    by (auto simp: prefix_def)
  ultimately have "line = (''- '' @ f @ '': '') @ a" by simp
  then show ?thesis using find_first_prefix [of "''- '' @ f @ '': ''" a] by simp
qed

lemma count_list_map_filter:
  "count_list (List.map_filter g ls) f = length (filter (\<lambda>l. g l = Some f) ls)"
  by (induction ls) (auto simp: map_filter_simps split: option.splits)

lemma length_map_filter:
  "length (List.map_filter g ls) = length (filter (\<lambda>l. g l \<noteq> None) ls)"
  by (induction ls) (auto simp: map_filter_simps split: option.splits)

lemma length_filter_mono:
  "(\<And>x. x \<in> set xs \<Longrightarrow> P x \<Longrightarrow> Q x) \<Longrightarrow> length (filter P xs) \<le> length (filter Q xs)"
  by (induction xs) auto

lemma count_field_names_le:
  "count_list (field_names content) f \<le> length (field_matches content f)"
  unfolding field_names_def field_matches_def count_list_map_filter length_map_filter
  by (rule length_filter_mono) (use line_field_matches in auto)

lemma decode_fields_multiple:
  "f \<in> set fnames \<Longrightarrow> length (field_matches content f) \<noteq> 1 \<Longrightarrow>
   \<exists>g \<in> set fnames. decode_fields multiple sep content info fnames = Inl (multiple g)"
  by (induction fnames arbitrary: info) (auto simp: Let_def)

lemma osg_read_fields_names:
  "osg_read_fields content = Inr (info, fnames) \<Longrightarrow>
   fnames = field_names content \<and> check_order valid_fields 0 fnames = None
   \<and> set essential_fields \<subseteq> set fnames"
  by (auto simp: osg_read_fields_def Let_def find_None_iff split: if_splits option.splits)

section \<open>The state check\<close>

lemma check_state_recognized:
  assumes "list_all (\<lambda>t. \<not> unknown_state_tag t) v"
  shows "check_state v =
           (if ''beta'' \<in> set v \<and> ''mature'' \<in> set v then Some StateNotOne else None)"
proof -
  from assms have "List.find unknown_state_tag v = None"
    by (simp add: find_None_iff list_all_iff)
  then show ?thesis by (simp add: check_state_def list_ne_str_def)
qed

text \<open>
  C1. The comment in front of the state check says that the state must contain either
  beta or mature, not both, but at least one. The check rejects a list of recognized
  tokens only when it holds both: the state \<^verbatim>\<open>inactive since 2019\<close>, which holds neither,
  passes the check, and an entry with that state is parsed without an error by both
  modules.
\<close>

theorem state_without_beta_or_mature_accepted:
  "check_state [''inactive since 2019''] = None
   \<and> map_sum id (\<lambda>info. (vals info ''state'', inactive info))
        (osg_parse_entry entry_inactive_only)
       = Inr (Some [''inactive since 2019''], Some ''2019'')
   \<and> map_sum id (\<lambda>(info, e). (vals info ''state'', inactive info, e))
        (maintenance_parse_entry entry_inactive_only)
       = Inr (Some [''inactive since 2019''], Some ''2019'', None)"
  by code_simp

section \<open>Misordered and repeated fields\<close>

lemma check_order_misordered:
  assumes "distinct valid" and "i < j" and "j < length fnames"
    and "canonical_rank valid (fnames ! j) < canonical_rank valid (fnames ! i)"
  shows "\<exists>field. check_order valid 0 fnames = Some field"
proof (rule ccontr)
  assume "\<nexists>field. check_order valid 0 fnames = Some field"
  then have "check_order valid 0 fnames = None" by simp
  with assms(1) have "sorted (map (canonical_rank valid) fnames)"
    by (simp add: check_order_None_iff)
  with assms(2,3) have "canonical_rank valid (fnames ! i) \<le> canonical_rank valid (fnames ! j)"
    using sorted_nth_mono [of "map (canonical_rank valid) fnames" i j] by simp
  with assms(4) show False by simp
qed

lemma osg_read_fields_order:
  assumes "check_order valid_fields 0 (field_names content) = Some field"
  shows "osg_read_fields content
           \<in> {Inl NameNotFound, Inl DescriptionNotFound}
             \<union> range (\<lambda>f. Inl (EssentialFieldMissing f)) \<union> range (\<lambda>f. Inl (FieldOrder f))"
  using assms by (auto simp: osg_read_fields_def Let_def split: option.splits)

lemma maintenance_parse_entry_order:
  assumes "check_order maintenance_valid_fields 0 (field_names content) = Some field"
  shows "maintenance_parse_entry content
           \<in> {Inl AssertionError}
             \<union> range (\<lambda>(info, f). Inr (info, Some (EssentialFieldMissing f)))
             \<union> range (\<lambda>(info, f). Inr (info, Some (FieldOrder f)))"
proof -
  let ?info = "empty_info (hd (name_matches content)) (hd (description_matches content))"
  have "maintenance_parse_entry content = Inl AssertionError
        \<or> (\<exists>f. maintenance_parse_entry content = Inr (?info, Some (EssentialFieldMissing f)))
        \<or> (\<exists>f. maintenance_parse_entry content = Inr (?info, Some (FieldOrder f)))"
    using assms by (auto simp: maintenance_parse_entry_def Let_def split: option.splits)
  then show ?thesis by (auto simp: image_iff)
qed

text \<open>
  C4. When a field of the tokenized list has a lower canonical rank than a field before
  it, the order scan stops with an error at some field. \<^verbatim>\<open>parse_entry\<close> of
  \<^verbatim>\<open>utils/osg.py\<close> then raises: the error of the order check, unless the name, the
  description or an essential field is missing, which is tested before.
  \<^verbatim>\<open>parse_entry\<close> of \<^verbatim>\<open>maintenance.py\<close>, with its own canonical list, reports the error
  of the order check and returns the dictionary without any field, unless an assertion
  fails or an essential field is missing before. No result holds a reordered field list.
\<close>

theorem misordered_fields_rejected:
  assumes "i < j" and "j < length (field_names content)"
  shows "(canonical_rank valid_fields (field_names content ! j)
            < canonical_rank valid_fields (field_names content ! i) \<longrightarrow>
          (\<exists>field. check_order valid_fields 0 (field_names content) = Some field)
          \<and> osg_parse_entry content
              \<in> {Inl NameNotFound, Inl DescriptionNotFound}
                \<union> range (\<lambda>f. Inl (EssentialFieldMissing f))
                \<union> range (\<lambda>f. Inl (FieldOrder f)))
       \<and> (canonical_rank maintenance_valid_fields (field_names content ! j)
            < canonical_rank maintenance_valid_fields (field_names content ! i) \<longrightarrow>
          (\<exists>field. check_order maintenance_valid_fields 0 (field_names content) = Some field)
          \<and> maintenance_parse_entry content
              \<in> {Inl AssertionError}
                \<union> range (\<lambda>(info, f). Inr (info, Some (EssentialFieldMissing f)))
                \<union> range (\<lambda>(info, f). Inr (info, Some (FieldOrder f))))"
proof (intro conjI impI)
  assume r: "canonical_rank valid_fields (field_names content ! j)
               < canonical_rank valid_fields (field_names content ! i)"
  from check_order_misordered [OF distinct_valid_fields(1) assms r]
  show o: "\<exists>field. check_order valid_fields 0 (field_names content) = Some field" .
  then obtain field where "check_order valid_fields 0 (field_names content) = Some field" ..
  from osg_read_fields_order [OF this]
  show "osg_parse_entry content
          \<in> {Inl NameNotFound, Inl DescriptionNotFound}
            \<union> range (\<lambda>f. Inl (EssentialFieldMissing f)) \<union> range (\<lambda>f. Inl (FieldOrder f))"
    by (auto simp: osg_parse_entry_def)
next
  assume r: "canonical_rank maintenance_valid_fields (field_names content ! j)
               < canonical_rank maintenance_valid_fields (field_names content ! i)"
  from check_order_misordered [OF distinct_valid_fields(2) assms r]
  show o: "\<exists>field. check_order maintenance_valid_fields 0 (field_names content) = Some field" .
  then obtain field where
    "check_order maintenance_valid_fields 0 (field_names content) = Some field" ..
  then show "maintenance_parse_entry content
          \<in> {Inl AssertionError}
            \<union> range (\<lambda>(info, f). Inr (info, Some (EssentialFieldMissing f)))
            \<union> range (\<lambda>(info, f). Inr (info, Some (FieldOrder f)))"
    by (rule maintenance_parse_entry_order)
qed

theorem misordered_fields_rejected_witness:
  "(0 :: nat) < 1 \<and> 1 < length (field_names entry_misordered)
   \<and> field_names entry_misordered ! 0 = ''Code language''
   \<and> field_names entry_misordered ! 1 = ''Home''
   \<and> canonical_rank valid_fields ''Home'' < canonical_rank valid_fields ''Code language''
   \<and> canonical_rank maintenance_valid_fields ''Home''
       < canonical_rank maintenance_valid_fields ''Code language''
   \<and> check_order valid_fields 0 (field_names entry_misordered) = Some ''Home''
   \<and> map_sum id title (osg_parse_entry entry_misordered) = Inl (FieldOrder ''Home'')
   \<and> osg_parse_entry entry_misordered
        \<in> {Inl NameNotFound, Inl DescriptionNotFound}
          \<union> range (\<lambda>f. Inl (EssentialFieldMissing f)) \<union> range (\<lambda>f. Inl (FieldOrder f))
   \<and> maintenance_parse_entry entry_misordered
        \<in> {Inl AssertionError}
          \<union> range (\<lambda>(info, f). Inr (info, Some (EssentialFieldMissing f)))
          \<union> range (\<lambda>(info, f). Inr (info, Some (FieldOrder f)))"
proof -
  have n: "field_names entry_misordered =
             [''Code language'', ''Home'', ''State'', ''Keywords'', ''Code repository'',
              ''Code license'']"
    by code_simp
  have l: "(0 :: nat) < 1" "1 < length (field_names entry_misordered)"
    by (simp_all add: n)
  have r1: "canonical_rank valid_fields ''Home'' < canonical_rank valid_fields ''Code language''"
    by code_simp
  have r2: "canonical_rank maintenance_valid_fields ''Home''
              < canonical_rank maintenance_valid_fields ''Code language''"
    by code_simp
  have c: "check_order valid_fields 0 (field_names entry_misordered) = Some ''Home''"
    by code_simp
  have p: "map_sum id title (osg_parse_entry entry_misordered) = Inl (FieldOrder ''Home'')"
    by code_simp
  from misordered_fields_rejected [OF l] r1 r2 n c p show ?thesis
    by simp
qed

text \<open>
  C10. The cursor stays on the position it matched, so a field name that is repeated at
  once is matched again: the order scan gives the same result with and without the
  repetition. An entry with such a repetition that passes the checks in front of the
  decoding loop is rejected there, by the test that every field matches exactly once.
\<close>

theorem repeated_field_passes_order_check:
  "check_order valid index (xs @ f # f # ys) = check_order valid index (xs @ f # ys)
   \<and> (map_sum id snd (osg_read_fields content) = Inr (xs @ f # f # ys) \<longrightarrow>
        (\<exists>g. osg_parse_entry content = Inl (FieldMultiple g)))"
proof (intro conjI impI)
  show "check_order valid index (xs @ f # f # ys) = check_order valid index (xs @ f # ys)"
    by (rule check_order_repeat)
next
  assume "map_sum id snd (osg_read_fields content) = Inr (xs @ f # f # ys)"
  then obtain info where r: "osg_read_fields content = Inr (info, xs @ f # f # ys)"
    by (cases "osg_read_fields content") auto
  from osg_read_fields_names [OF r] have "field_names content = xs @ f # f # ys"
    by simp
  then have "2 \<le> count_list (field_names content) f" by simp
  with count_field_names_le [of content f] have "length (field_matches content f) \<noteq> 1"
    by simp
  moreover have "f \<in> set (xs @ f # f # ys)" by simp
  ultimately obtain g where
    "decode_fields FieldMultiple strict_sep content info (xs @ f # f # ys)
       = Inl (FieldMultiple g)"
    using decode_fields_multiple by blast
  with r show "\<exists>g. osg_parse_entry content = Inl (FieldMultiple g)"
    by (simp add: osg_parse_entry_def)
qed

theorem repeated_field_passes_order_check_witness:
  "map_sum id snd (osg_read_fields entry_duplicate)
     = Inr ([] @ ''Home'' # ''Home'' #
            [''State'', ''Keywords'', ''Code repository'', ''Code language'', ''Code license''])
   \<and> check_order valid_fields 0
        ([] @ ''Home'' # ''Home'' #
           [''State'', ''Keywords'', ''Code repository'', ''Code language'', ''Code license''])
       = None
   \<and> (\<exists>g. osg_parse_entry entry_duplicate = Inl (FieldMultiple g))"
proof -
  have h: "map_sum id snd (osg_read_fields entry_duplicate)
     = Inr ([] @ ''Home'' # ''Home'' #
            [''State'', ''Keywords'', ''Code repository'', ''Code language'', ''Code license''])"
    by code_simp
  have c: "check_order valid_fields 0
        ([] @ ''Home'' # ''Home'' #
           [''State'', ''Keywords'', ''Code repository'', ''Code language'', ''Code license''])
       = None"
    by code_simp
  from repeated_field_passes_order_check
         [of valid_fields 0 "[]" "''Home''" _ entry_duplicate] h c
  show ?thesis by blast
qed


section \<open>Properties of value decoding\<close>

lemma set_remove_parens: "set (remove_parens s) \<subseteq> set s"
proof (induction s rule: remove_parens.induct)
  case 1
  show ?case by simp
next
  case (2 c cs)
  show ?case
  proof (cases "c = CHR ''('' \<and> CHR '')'' \<in> set cs")
    case True
    have "set (tl ys) \<subseteq> set ys" for ys :: string
      by (cases ys) auto
    then have "set (tl (dropWhile (\<lambda>x. x \<noteq> CHR '')'') cs))
                 \<subseteq> set (dropWhile (\<lambda>x. x \<noteq> CHR '')'') cs)" .
    also have "\<dots> \<subseteq> set cs"
      by (auto dest: set_dropWhileD)
    finally have "set (tl (dropWhile (\<lambda>x. x \<noteq> CHR '')'') cs)) \<subseteq> set cs" .
    with True "2.IH"(1) show ?thesis by auto
  next
    case False
    with "2.IH"(2) show ?thesis by auto
  qed
qed

lemma no_paren_remove_parens: "\<not> has_paren (remove_parens s)"
proof (induction s rule: remove_parens.induct)
  case 1
  show ?case by simp
next
  case (2 c cs)
  show ?case
  proof (cases "c = CHR ''('' \<and> CHR '')'' \<in> set cs")
    case True
    with "2.IH"(1) show ?thesis by simp
  next
    case False
    with "2.IH"(2) set_remove_parens [of cs] show ?thesis by auto
  qed
qed

lemma remove_parens_id: "\<not> has_paren s \<Longrightarrow> remove_parens s = s"
  by (induction s) auto

lemma has_paren_iff:
  "has_paren s \<longleftrightarrow> (\<exists>a b c. s = a @ CHR ''('' # b @ CHR '')'' # c)"
proof
  show "has_paren s \<Longrightarrow> \<exists>a b c. s = a @ CHR ''('' # b @ CHR '')'' # c"
  proof (induction s)
    case Nil
    then show ?case by simp
  next
    case (Cons x xs)
    show ?case
    proof (cases "x = CHR ''('' \<and> CHR '')'' \<in> set xs")
      case True
      then obtain b c where "xs = b @ CHR '')'' # c"
        using split_list [of "CHR '')''" xs] by blast
      with True have "x # xs = [] @ CHR ''('' # b @ CHR '')'' # c" by simp
      then show ?thesis by blast
    next
      case False
      with Cons.prems have "has_paren xs" by auto
      with Cons.IH obtain a b c where "xs = a @ CHR ''('' # b @ CHR '')'' # c" by blast
      then have "x # xs = (x # a) @ CHR ''('' # b @ CHR '')'' # c" by simp
      then show ?thesis by blast
    qed
  qed
next
  assume "\<exists>a b c. s = a @ CHR ''('' # b @ CHR '')'' # c"
  then obtain a b c where "s = a @ CHR ''('' # b @ CHR '')'' # c" by blast
  then show "has_paren s" by (induction a arbitrary: s) auto
qed

lemma sublist_trans: "sublist a b \<Longrightarrow> sublist b c \<Longrightarrow> sublist a c"
proof -
  assume "sublist a b" and "sublist b c"
  then obtain p q r s where "b = p @ a @ q" "c = r @ b @ s"
    unfolding sublist_def by blast
  then have "c = (r @ p) @ a @ (q @ s)" by simp
  then show ?thesis unfolding sublist_def by blast
qed

lemma has_paren_sublist:
  assumes "sublist t s" and "has_paren t"
  shows "has_paren s"
proof -
  from assms(1) obtain p q where s: "s = p @ t @ q" by (auto simp: sublist_def)
  from assms(2) obtain a b c where "t = a @ CHR ''('' # b @ CHR '')'' # c"
    by (auto simp: has_paren_iff)
  with s have "s = (p @ a) @ CHR ''('' # b @ CHR '')'' # (c @ q)" by simp
  then show ?thesis unfolding has_paren_iff by blast
qed

lemma split_not_Nil: "split sep s \<noteq> []"
  by (induction sep s rule: split.induct) (auto split: list.splits)

lemma split_hd_prefix: "prefix (hd (split sep s)) s"
  by (induction sep s rule: split.induct) (auto split: list.splits)

lemma split_sublist: "p \<in> set (split sep s) \<Longrightarrow> sublist p s"
proof (induction sep s arbitrary: p rule: split.induct)
  case (1 sep)
  then show ?case by simp
next
  case (2 sep c cs)
  show ?case
  proof (cases "sep \<noteq> [] \<and> prefix sep (c # cs)")
    case True
    show ?thesis
    proof (cases "p = []")
      case True
      then show ?thesis by simp
    next
      case False
      with True "2.prems" have "p \<in> set (split sep (drop (length sep) (c # cs)))" by simp
      with True "2.IH"(1) have "sublist p (drop (length sep) (c # cs))" by blast
      moreover have "sublist (drop (length sep) (c # cs)) (c # cs)" by (rule sublist_drop)
      ultimately show ?thesis by (rule sublist_trans)
    qed
  next
    case False
    obtain q qs where q: "split sep cs = q # qs"
      using split_not_Nil [of sep cs] by (cases "split sep cs") auto
    with False "2.prems" have "p = c # q \<or> p \<in> set qs" by auto
    then show ?thesis
    proof
      assume "p = c # q"
      moreover from q split_hd_prefix [of sep cs] have "prefix q cs" by simp
      ultimately show ?thesis by (simp add: prefix_imp_sublist)
    next
      assume "p \<in> set qs"
      with q have "p \<in> set (split sep cs)" by simp
      with False "2.IH"(2) have "sublist p cs" by blast
      then show ?thesis by (simp add: sublist_Cons_right)
    qed
  qed
qed

lemma split_no_sep: "sep \<noteq> [] \<Longrightarrow> p \<in> set (split sep s) \<Longrightarrow> \<not> sublist sep p"
proof (induction sep s arbitrary: p rule: split.induct)
  case (1 sep)
  then show ?case by simp
next
  case (2 sep c cs)
  show ?case
  proof (cases "prefix sep (c # cs)")
    case True
    with "2.prems" have "p = [] \<or> p \<in> set (split sep (drop (length sep) (c # cs)))" by simp
    then show ?thesis
    proof
      assume "p = []"
      with "2.prems"(1) show ?thesis by simp
    next
      assume "p \<in> set (split sep (drop (length sep) (c # cs)))"
      with True "2.prems"(1) "2.IH"(1) show ?thesis by blast
    qed
  next
    case False
    obtain q qs where q: "split sep cs = q # qs"
      using split_not_Nil [of sep cs] by (cases "split sep cs") auto
    with False "2.prems" have "p = c # q \<or> p \<in> set qs" by auto
    then show ?thesis
    proof
      assume p: "p = c # q"
      from q split_hd_prefix [of sep cs] have "prefix q cs" by simp
      then have "prefix (c # q) (c # cs)" by simp
      with False have "\<not> prefix sep (c # q)"
        using prefix_order.trans [of sep "c # q" "c # cs"] by blast
      moreover from q False "2.prems"(1) "2.IH"(2) [of q] have "\<not> sublist sep q" by simp
      ultimately show ?thesis using p by (simp add: sublist_Cons_right)
    next
      assume "p \<in> set qs"
      with q have "p \<in> set (split sep cs)" by simp
      with False "2.prems"(1) "2.IH"(2) show ?thesis by blast
    qed
  qed
qed

lemma split_id: "\<not> sublist sep x \<Longrightarrow> split sep x = [x]"
proof (induction x)
  case Nil
  show ?case by simp
next
  case (Cons c cs)
  then have "\<not> prefix sep (c # cs)" "\<not> sublist sep cs"
    by (simp_all add: sublist_Cons_right)
  with Cons.IH show ?case by simp
qed

lemma sublist_strip: "sublist (strip s) s"
proof -
  have "sublist (rev (dropWhile isspace (rev (dropWhile isspace s)))) (dropWhile isspace s)"
    by (simp add: sublist_rev_left)
  moreover have "sublist (dropWhile isspace s) s" by (rule sublist_dropWhile)
  ultimately show ?thesis
    unfolding strip_def lstrip_def rstrip_def by (rule sublist_trans)
qed

lemma sublist_unwrap: "sublist (unwrap s) s"
proof (cases s)
  case Nil
  then show ?thesis by simp
next
  case (Cons c cs)
  have "sublist (butlast cs) cs" by (rule sublist_butlast)
  then have "sublist (butlast cs) (c # cs)"
    by (simp add: sublist_Cons_right)
  with Cons show ?thesis by auto
qed

lemma sublist_same_length: "sublist t s \<Longrightarrow> length t = length s \<Longrightarrow> t = s"
  by (auto simp: sublist_def)

lemma unwrap_id_iff: "unwrap x = x \<longleftrightarrow> \<not> bracketed x"
proof (cases x)
  case Nil
  then show ?thesis by (simp add: bracketed_def)
next
  case (Cons c cs)
  have "butlast cs \<noteq> c # cs"
  proof
    assume "butlast cs = c # cs"
    then have "length (butlast cs) = length (c # cs)" by (rule arg_cong)
    then show False by simp
  qed
  with Cons show ?thesis by (auto simp: bracketed_def)
qed

lemma decode_single:
  assumes "decode sep v = [x]"
  shows "\<exists>p \<in> set (split sep (remove_parens v)). strip p \<noteq> [] \<and> x = unwrap (strip p)"
proof -
  let ?ps = "filter (\<lambda>x. x \<noteq> []) (map strip (split sep (remove_parens v)))"
  from assms have "map unwrap ?ps = [x]" by (simp add: decode_def)
  then obtain y where y: "?ps = [y]" "x = unwrap y"
    by (cases ?ps) auto
  then have "y \<in> set ?ps" by simp
  then have "y \<noteq> []" "y \<in> strip ` set (split sep (remove_parens v))" by auto
  with y(2) show ?thesis by auto
qed

lemma decode_value:
  assumes "sep \<noteq> []" and "decode sep v = [x]"
  shows "decode sep x = (if strip x = [] then [] else [unwrap (strip x)])"
proof -
  from decode_single [OF assms(2)] obtain p where
    p: "p \<in> set (split sep (remove_parens v))" "x = unwrap (strip p)" by blast
  have sub: "sublist x p"
    unfolding p(2) using sublist_unwrap [of "strip p"] sublist_strip [of p]
    by (rule sublist_trans)
  have "\<not> has_paren p"
    using split_sublist [OF p(1)] no_paren_remove_parens [of v] has_paren_sublist by blast
  with sub have "\<not> has_paren x" using has_paren_sublist by blast
  then have r: "remove_parens x = x" by (rule remove_parens_id)
  have "\<not> sublist sep p" using assms(1) p(1) by (rule split_no_sep)
  with sub have "\<not> sublist sep x" using sublist_trans [of sep x p] by blast
  then have "split sep x = [x]" by (rule split_id)
  with r show ?thesis by (simp add: decode_def)
qed

lemma sep_not_Nil: "strict_sep \<noteq> []" "lenient_sep \<noteq> []"
  by (simp_all add: strict_sep_def lenient_sep_def)

text \<open>
  C8, as the code has it. Decoding is not idempotent on every decoded value: the value
  \<^verbatim>\<open><<a>>\<close> decodes to \<^verbatim>\<open><a>\<close>, which decodes to \<^verbatim>\<open>a\<close>.
\<close>

theorem decode_not_idempotent:
  "decode strict_sep ''<<a>>'' = [''<a>''] \<and> decode strict_sep ''<a>'' = [''a'']
   \<and> decode lenient_sep ''<<a>>'' = [''<a>''] \<and> decode lenient_sep ''<a>'' = [''a'']"
  by code_simp

text \<open>
  C8, amended. For a list of one value that decoding returned, in either mode, decoding
  the value again gives the same list exactly when the value is not empty, has no white
  space at its ends and is not bracketed by \<^verbatim>\<open><\<close> and \<^verbatim>\<open>>\<close>. Removing parentheses and
  splitting never change a decoded value; only values that decoding took out of
  \<^verbatim>\<open><...>\<close> can fail the three conditions.
\<close>

theorem decode_idempotent_iff:
  assumes "sep \<in> set [strict_sep, lenient_sep]" and "decode sep v = [x]"
  shows "decode sep x = [x] \<longleftrightarrow> x \<noteq> [] \<and> strip x = x \<and> \<not> bracketed x"
proof -
  from assms(1) have "sep \<noteq> []" using sep_not_Nil by auto
  then have d: "decode sep x = (if strip x = [] then [] else [unwrap (strip x)])"
    using assms(2) by (rule decode_value)
  show ?thesis
  proof
    assume "x \<noteq> [] \<and> strip x = x \<and> \<not> bracketed x"
    with d show "decode sep x = [x]" by (simp add: unwrap_id_iff)
  next
    assume "decode sep x = [x]"
    with d have s: "strip x \<noteq> []" and u: "unwrap (strip x) = x"
      by (simp_all split: if_splits)
    have "length (unwrap (strip x)) \<le> length (strip x)"
      using sublist_unwrap [of "strip x"] by (rule sublist_length_le)
    moreover have "length (strip x) \<le> length x"
      using sublist_strip [of x] by (rule sublist_length_le)
    ultimately have "length (strip x) = length x" using u by simp
    with sublist_strip [of x] have "strip x = x" by (rule sublist_same_length)
    with s u show "x \<noteq> [] \<and> strip x = x \<and> \<not> bracketed x"
      by (simp add: unwrap_id_iff)
  qed
qed

theorem decode_idempotent_iff_witness:
  "strict_sep \<in> set [strict_sep, lenient_sep]
   \<and> decode strict_sep entry_parenthesis = [''a'']
   \<and> strip ''a'' = ''a'' \<and> \<not> bracketed ''a''
   \<and> decode strict_sep ''a'' = [''a'']"
proof -
  have m: "strict_sep \<in> set [strict_sep, lenient_sep]" by simp
  have d: "decode strict_sep entry_parenthesis = [''a'']" by code_simp
  have s: "strip ''a'' = ''a''" by code_simp
  have b: "\<not> bracketed ''a''" by code_simp
  from decode_idempotent_iff [OF m d] s b show ?thesis
    using m d by simp
qed

section \<open>Essential fields after decoding\<close>

lemma decode_fields_Inr:
  "list_all (\<lambda>f. length (field_matches content f) = 1) fnames \<Longrightarrow>
   \<exists>info'. decode_fields multiple sep content info fnames = Inr info'"
  by (induction fnames arbitrary: info) (auto simp: Let_def)

lemma decode_fields_vals:
  "decode_fields multiple sep content info fnames = Inr info' \<Longrightarrow>
   vals info' k \<noteq> None \<longleftrightarrow>
     vals info k \<noteq> None
     \<or> (\<exists>g \<in> set fnames. lower g = k \<and> decode sep (hd (field_matches content g)) \<noteq> [])"
proof (induction fnames arbitrary: info)
  case Nil
  then show ?case by simp
next
  case (Cons f fnames)
  let ?info1 = "info\<lparr>raw := (raw info)(lower f @ ''-raw'' \<mapsto> hd (field_matches content f))\<rparr>"
  let ?d = "decode sep (hd (field_matches content f))"
  let ?info2 = "if ?d = [] then ?info1 else ?info1\<lparr>vals := (vals ?info1)(lower f \<mapsto> ?d)\<rparr>"
  from Cons.prems have "decode_fields multiple sep content ?info2 fnames = Inr info'"
    by (simp add: Let_def split: if_splits)
  from Cons.IH [OF this]
  have "vals info' k \<noteq> None \<longleftrightarrow>
     vals ?info2 k \<noteq> None
     \<or> (\<exists>g \<in> set fnames. lower g = k \<and> decode sep (hd (field_matches content g)) \<noteq> [])" .
  moreover have "vals ?info2 k \<noteq> None \<longleftrightarrow> vals info k \<noteq> None \<or> (lower f = k \<and> ?d \<noteq> [])"
    by auto
  ultimately show ?case by auto
qed

lemma lower_valid_fields: "distinct (map lower valid_fields)"
  by code_simp

lemma osg_read_fields_info:
  "osg_read_fields content = Inr (info, fnames) \<Longrightarrow> vals info = Map.empty"
  by (auto simp: osg_read_fields_def Let_def empty_info_def split: if_splits option.splits)

lemma check_order_valid:
  assumes "check_order valid_fields 0 fnames = None"
  shows "set fnames \<subseteq> set valid_fields"
  using assms check_order_None_iff [OF distinct_valid_fields(1), of 0 fnames] by auto

lemma check_content_empty:
  assumes "k \<in> set still_essential" and "vals info k = None"
  shows "\<exists>g. check_content info = Inl (EssentialFieldEmpty g)"
proof -
  from assms have "List.find (\<lambda>field. vals info field = None) still_essential \<noteq> None"
    by (auto simp: find_None_iff)
  then show ?thesis by (auto simp: check_content_def)
qed

text \<open>
  C2, as the code has it. The entry below names the essential field
  \<^verbatim>\<open>Code repository\<close>, its value is a remark in parentheses and decodes to no piece, and
  the entry is parsed without an error: the second test of the essential fields does
  not look at \<^verbatim>\<open>code repository\<close>.
\<close>

theorem empty_code_repository_accepted:
  "''Code repository'' \<in> set essential_fields
   \<and> ''Code repository'' \<in> set (field_names entry_empty_repository)
   \<and> decode strict_sep (hd (field_matches entry_empty_repository ''Code repository'')) = []
   \<and> map_sum id (\<lambda>info. (vals info ''code repository'', raw info ''code repository-raw''))
        (osg_parse_entry entry_empty_repository) = Inr (None, Some ''(see download)'')"
  by code_simp

text \<open>
  C2, amended. For an entry that reaches the decoding loop and in which every field
  matches once, and for each of the fields Home, State, Keywords, Code language and Code
  license: when the value of the field decodes to no piece, \<^verbatim>\<open>parse_entry\<close> raises the
  error that an essential field is empty.
\<close>

theorem empty_essential_field_rejected:
  assumes "map_sum id snd (osg_read_fields content) = Inr fnames"
    and "list_all (\<lambda>f. length (field_matches content f) = 1) fnames"
    and "field \<in> set [''Home'', ''State'', ''Keywords'', ''Code language'', ''Code license'']"
    and "decode strict_sep (hd (field_matches content field)) = []"
  shows "\<exists>g. osg_parse_entry content = Inl (EssentialFieldEmpty g)"
proof -
  from assms(1) obtain info where r: "osg_read_fields content = Inr (info, fnames)"
    by (cases "osg_read_fields content") auto
  from decode_fields_Inr [OF assms(2)] obtain info' where
    d: "decode_fields FieldMultiple strict_sep content info fnames = Inr info'" by blast
  from assms(3) have v: "field \<in> set valid_fields" and k: "lower field \<in> set still_essential"
    by (auto simp: valid_fields_def still_essential_def lower_def lower_char_def)
  have "vals info' (lower field) = None"
  proof (rule ccontr)
    assume "vals info' (lower field) \<noteq> None"
    with decode_fields_vals [OF d, of "lower field"] osg_read_fields_info [OF r]
    obtain g where g: "g \<in> set fnames" "lower g = lower field"
      "decode strict_sep (hd (field_matches content g)) \<noteq> []"
      by auto
    have "check_order valid_fields 0 fnames = None"
      by (rule osg_read_fields_names [OF r, THEN conjunct2, THEN conjunct1])
    with g(1) check_order_valid have "g \<in> set valid_fields" by blast
    with v g(2) lower_valid_fields have "g = field"
      by (meson distinct_map inj_onD)
    with g(3) assms(4) show False by simp
  qed
  with k obtain e where "check_content info' = Inl (EssentialFieldEmpty e)"
    using check_content_empty by blast
  with r d show ?thesis by (simp add: osg_parse_entry_def)
qed

theorem empty_essential_field_rejected_witness:
  "map_sum id snd (osg_read_fields entry_empty_license)
     = Inr [''Home'', ''State'', ''Keywords'', ''Code repository'', ''Code language'',
            ''Code license'']
   \<and> list_all (\<lambda>f. length (field_matches entry_empty_license f) = 1)
        [''Home'', ''State'', ''Keywords'', ''Code repository'', ''Code language'',
         ''Code license'']
   \<and> decode strict_sep (hd (field_matches entry_empty_license ''Code license'')) = []
   \<and> (\<exists>g. osg_parse_entry entry_empty_license = Inl (EssentialFieldEmpty g))"
proof -
  have r: "map_sum id snd (osg_read_fields entry_empty_license)
     = Inr [''Home'', ''State'', ''Keywords'', ''Code repository'', ''Code language'',
            ''Code license'']"
    by code_simp
  have u: "list_all (\<lambda>f. length (field_matches entry_empty_license f) = 1)
        [''Home'', ''State'', ''Keywords'', ''Code repository'', ''Code language'',
         ''Code license'']"
    by code_simp
  have m: "''Code license''
             \<in> set [''Home'', ''State'', ''Keywords'', ''Code language'', ''Code license'']"
    by simp
  have e: "decode strict_sep (hd (field_matches entry_empty_license ''Code license'')) = []"
    by code_simp
  from empty_essential_field_rejected [OF r u m e] r u e show ?thesis by blast
qed

section \<open>Properties of the repository classifier\<close>

lemma consume_repo_consumed:
  "snd (consume_repo same (repos, consumed) repo0) = (consumed \<or> classified same repo0)"
  by (simp add: consume_repo_def classified_def Let_def)

lemma foldl_consume_repo:
  "snd (foldl (consume_repo same) (repos, consumed) rs)
     = (consumed \<or> list_ex (classified same) rs)"
proof (induction rs arbitrary: repos consumed)
  case Nil
  show ?case by simp
next
  case (Cons r rs)
  obtain repos1 consumed1 where s: "consume_repo same (repos, consumed) r = (repos1, consumed1)"
    by (cases "consume_repo same (repos, consumed) r")
  with consume_repo_consumed [of same repos consumed r]
  have "consumed1 = (consumed \<or> classified same r)" by simp
  with s Cons.IH [of repos1 consumed1] show ?case by auto
qed

text \<open>What one record adds to the list of unconsumed entries.\<close>

lemma consume_info_unconsumed:
  "snd (consume_info same (repos, unconsumed) info) =
     unconsumed @
       (case raw info ''code repository-raw'' of
          None \<Rightarrow> []
        | Some field_raw \<Rightarrow>
            if list_ex (classified same) (if field_raw \<noteq> [] then retained_repos field_raw else [])
            then [] else [(title info, field_raw)])"
proof (cases "raw info ''code repository-raw''")
  case None
  then show ?thesis by (simp add: consume_info_def)
next
  case (Some field_raw)
  obtain repos1 consumed where
    f: "foldl (consume_repo same) (repos, False) (retained_repos field_raw) = (repos1, consumed)"
    by (cases "foldl (consume_repo same) (repos, False) (retained_repos field_raw)")
  with foldl_consume_repo [of same repos False "retained_repos field_raw"]
  have "consumed = list_ex (classified same) (retained_repos field_raw)" by simp
  with Some f show ?thesis by (simp add: consume_info_def)
qed

lemma foldl_consume_info:
  "snd (foldl (consume_info same) (repos, unconsumed) infois) =
     unconsumed @ concat (map (\<lambda>info.
       (case raw info ''code repository-raw'' of
          None \<Rightarrow> []
        | Some field_raw \<Rightarrow>
            if list_ex (classified same) (if field_raw \<noteq> [] then retained_repos field_raw else [])
            then [] else [(title info, field_raw)])) infois)"
proof (induction infois arbitrary: repos unconsumed)
  case Nil
  show ?case by simp
next
  case (Cons info infois)
  obtain repos1 unconsumed1 where
    s: "consume_info same (repos, unconsumed) info = (repos1, unconsumed1)"
    by (cases "consume_info same (repos, unconsumed) info")
  with consume_info_unconsumed [of same repos unconsumed info]
  have "unconsumed1 = unconsumed @
       (case raw info ''code repository-raw'' of
          None \<Rightarrow> []
        | Some field_raw \<Rightarrow>
            if list_ex (classified same) (if field_raw \<noteq> [] then retained_repos field_raw else [])
            then [] else [(title info, field_raw)])"
    by simp
  with s Cons.IH [of repos1 unconsumed1] show ?case by simp
qed

text \<open>
  C3, as the code has it. The record below keeps two URLs: the first is a git
  repository, the second carries the marker \<^verbatim>\<open>(+)\<close> and passes none of the four tests.
  The record is not added to the list of unconsumed entries, and the second URL is in
  none of the four lists.
\<close>

theorem unmatched_url_dropped:
  "\<forall>same.
     retained_repos ''https://github.com/x/y.git, https://example.com/x (+)''
       = [''https://github.com/x/y.git'', '' https://example.com/x (+)'']
     \<and> \<not> classified same '' https://example.com/x (+)''
     \<and> update_primary_code_repositories same infos_mixed
         = (\<lparr>git = [''https://github.com/x/y.git''], svn = [], hg = [], bzr = []\<rparr>, [])"
proof
  fix same
  show "retained_repos ''https://github.com/x/y.git, https://example.com/x (+)''
       = [''https://github.com/x/y.git'', '' https://example.com/x (+)'']
     \<and> \<not> classified same '' https://example.com/x (+)''
     \<and> update_primary_code_repositories same infos_mixed
         = (\<lparr>git = [''https://github.com/x/y.git''], svn = [], hg = [], bzr = []\<rparr>, [])"
  proof (induct same)
    case True
    show ?case by code_simp
  next
    case False
    show ?case by code_simp
  qed
qed

text \<open>
  C3, amended. The list of unconsumed entries holds, in the order of the records, the
  name and the raw repository field of exactly those records that have the raw field
  and of whose retained URLs none is classified; a record with an empty raw field is
  among them.
\<close>

theorem unconsumed_entries_per_record:
  "snd (update_primary_code_repositories same infois) =
     concat (map (\<lambda>info.
       (case raw info ''code repository-raw'' of
          None \<Rightarrow> []
        | Some field_raw \<Rightarrow>
            if list_ex (classified same) (if field_raw \<noteq> [] then retained_repos field_raw else [])
            then [] else [(title info, field_raw)])) infois)"
proof -
  obtain repos unconsumed where
    f: "foldl (consume_info same) (\<lparr>git = [], svn = [], hg = [], bzr = []\<rparr>, []) infois
          = (repos, unconsumed)"
    by (cases "foldl (consume_info same) (\<lparr>git = [], svn = [], hg = [], bzr = []\<rparr>, []) infois")
  with foldl_consume_info [of same "\<lparr>git = [], svn = [], hg = [], bzr = []\<rparr>" "[]" infois]
  show ?thesis by (simp add: update_primary_code_repositories_def)
qed

section \<open>The order of the four tests\<close>

lemma truthy_the:
  "truthy (git_repo repo) \<Longrightarrow> the (git_repo repo) = repo"
  "truthy (svn_repo same repo) \<Longrightarrow> the (svn_repo same repo) = repo"
  "truthy (hg_repo repo) \<Longrightarrow> the (hg_repo repo) = repo"
  "truthy (bzr_repo repo) \<Longrightarrow> the (bzr_repo repo) = repo"
  by (auto simp: truthy_def git_repo_def svn_repo_def hg_repo_def bzr_repo_def split: if_splits)

lemma first_match_cases:
  "first_match same repo =
     (if truthy (git_repo repo) then Some Git
      else if truthy (svn_repo same repo) then Some Svn
      else if truthy (hg_repo repo) then Some Hg
      else if truthy (bzr_repo repo) then Some Bzr
      else None)"
  by (simp add: first_match_def priority_def)

lemma consume_repo_first_match:
  "consume_repo same (repos, consumed) repo0 =
     (case first_match same (strip (remove_parens repo0)) of
        None \<Rightarrow> (repos, consumed)
      | Some k \<Rightarrow> (file_under k (strip (remove_parens repo0)) repos, True))"
  by (simp add: consume_repo_def first_match_cases Let_def truthy_the)

lemma repos_of_file_under:
  "repos_of k (file_under k' url repos) = repos_of k repos @ (if k = k' then [url] else [])"
  by (cases k; cases k') simp_all

lemma filed_Cons:
  "filed same k (url # urls) =
     (if first_match same url = Some k then [url] else []) @ filed same k urls"
  by (simp add: filed_def)

lemma filed_append: "filed same k (us @ vs) = filed same k us @ filed same k vs"
  by (simp add: filed_def)

lemma foldl_consume_repo_filed:
  "repos_of k (fst (foldl (consume_repo same) (repos, consumed) rs))
     = repos_of k repos @ filed same k (map (\<lambda>repo. strip (remove_parens repo)) rs)"
proof (induction rs arbitrary: repos consumed)
  case Nil
  show ?case by (simp add: filed_def)
next
  case (Cons r rs)
  show ?case
  proof (cases "first_match same (strip (remove_parens r))")
    case None
    then have "consume_repo same (repos, consumed) r = (repos, consumed)"
      by (simp add: consume_repo_first_match)
    with None Cons.IH [of repos consumed] show ?thesis by (simp add: filed_Cons)
  next
    case (Some k')
    then have "consume_repo same (repos, consumed) r
                 = (file_under k' (strip (remove_parens r)) repos, True)"
      by (simp add: consume_repo_first_match)
    with Some Cons.IH [of "file_under k' (strip (remove_parens r)) repos" True]
    show ?thesis by (auto simp: filed_Cons repos_of_file_under)
  qed
qed

lemma consume_info_filed:
  "repos_of k (fst (consume_info same (repos, unconsumed) info))
     = repos_of k repos @ filed same k (retained_urls [info])"
proof (cases "raw info ''code repository-raw''")
  case None
  then show ?thesis by (simp add: consume_info_def retained_urls_def filed_def)
next
  case (Some field_raw)
  show ?thesis
  proof (cases "field_raw = []")
    case True
    with Some show ?thesis by (simp add: consume_info_def retained_urls_def filed_def)
  next
    case False
    obtain repos1 consumed where
      f: "foldl (consume_repo same) (repos, False) (retained_repos field_raw)
            = (repos1, consumed)"
      by (cases "foldl (consume_repo same) (repos, False) (retained_repos field_raw)")
    with foldl_consume_repo_filed [of k same repos False "retained_repos field_raw"]
    have "repos_of k repos1
            = repos_of k repos
              @ filed same k (map (\<lambda>repo. strip (remove_parens repo)) (retained_repos field_raw))"
      by simp
    with Some False f show ?thesis by (simp add: consume_info_def retained_urls_def)
  qed
qed

lemma retained_urls_Cons:
  "retained_urls (info # infois) = retained_urls [info] @ retained_urls infois"
  by (simp add: retained_urls_def)

lemma foldl_consume_info_filed:
  "repos_of k (fst (foldl (consume_info same) (repos, unconsumed) infois))
     = repos_of k repos @ filed same k (retained_urls infois)"
proof (induction infois arbitrary: repos unconsumed)
  case Nil
  show ?case by (simp add: retained_urls_def filed_def)
next
  case (Cons info infois)
  obtain repos1 unconsumed1 where
    s: "consume_info same (repos, unconsumed) info = (repos1, unconsumed1)"
    by (cases "consume_info same (repos, unconsumed) info")
  with consume_info_filed [of k same repos unconsumed info]
  have "repos_of k repos1 = repos_of k repos @ filed same k (retained_urls [info])" by simp
  with s Cons.IH [of repos1 unconsumed1] show ?case
    by (simp add: retained_urls_Cons [of info infois] filed_append)
qed

lemma update_primary_code_repositories_filed:
  "fst (update_primary_code_repositories same infois) =
     \<lparr>git = sort (remdups (filed same Git (retained_urls infois))),
      svn = sort (remdups (filed same Svn (retained_urls infois))),
      hg = sort (remdups (filed same Hg (retained_urls infois))),
      bzr = sort (remdups (filed same Bzr (retained_urls infois)))\<rparr>"
proof -
  obtain repos unconsumed where
    f: "foldl (consume_info same) (\<lparr>git = [], svn = [], hg = [], bzr = []\<rparr>, []) infois
          = (repos, unconsumed)"
    by (cases "foldl (consume_info same) (\<lparr>git = [], svn = [], hg = [], bzr = []\<rparr>, []) infois")
  have "repos_of k repos = filed same k (retained_urls infois)" for k
    using foldl_consume_info_filed
            [of k same "\<lparr>git = [], svn = [], hg = [], bzr = []\<rparr>" "[]" infois] f
    by (cases k) simp_all
  from this [of Git] this [of Svn] this [of Hg] this [of Bzr] f show ?thesis
    by (simp add: update_primary_code_repositories_def)
qed

text \<open>
  C5. The classifier tests a URL in the fixed order git, svn, hg, bzr and files it under
  the first system whose test returns it: one step of the loop over the URLs of a record
  appends the URL to the list of that system and to no other, and leaves the lists as
  they are when no test returns it; the lists that the function ends with are, for each
  system, the retained URLs whose first test is that of the system, without duplicates
  and sorted. With this, \<^verbatim>\<open>https://github.com/x/y.git\<close> is filed under git,
  \<^verbatim>\<open>https://bitbucket.org/x/y\<close> under hg, \<^verbatim>\<open>https://code.launchpad.net/x\<close> under bzr, and
  the record of \<^verbatim>\<open>https://example.com/x\<close> is left unconsumed. Two URLs are filed under
  svn, and a URL that ends with \<^verbatim>\<open>.git\<close> and also passes the test for svn, for hg or
  for bzr is filed under git.
\<close>

theorem classifier_priority:
  "consume_repo same (repos, consumed) repo0 =
     (case first_match same (strip (remove_parens repo0)) of
        None \<Rightarrow> (repos, consumed)
      | Some k \<Rightarrow> (file_under k (strip (remove_parens repo0)) repos, True))
   \<and> fst (update_primary_code_repositories same infois) =
       \<lparr>git = sort (remdups (filed same Git (retained_urls infois))),
        svn = sort (remdups (filed same Svn (retained_urls infois))),
        hg = sort (remdups (filed same Hg (retained_urls infois))),
        bzr = sort (remdups (filed same Bzr (retained_urls infois)))\<rparr>
   \<and> first_match same ''https://github.com/x/y.git'' = Some Git
   \<and> first_match same ''https://bitbucket.org/x/y'' = Some Hg
   \<and> first_match same ''https://code.launchpad.net/x'' = Some Bzr
   \<and> first_match same ''https://example.com/x'' = None
   \<and> update_primary_code_repositories same infos_classified
       = (\<lparr>git = [''https://github.com/x/y.git''], svn = [],
           hg = [''https://bitbucket.org/x/y''], bzr = [''https://code.launchpad.net/x'']\<rparr>,
          [(''E'', ''https://example.com/x'')])
   \<and> first_match same ''https://svn.code.sf.net/p/x/code/'' = Some Svn
   \<and> first_match same ''http://svn.uktrainsim.com/svn/x'' = Some Svn
   \<and> truthy (svn_repo same ''http://svn.uktrainsim.com/svn/y.git'')
   \<and> first_match same ''http://svn.uktrainsim.com/svn/y.git'' = Some Git
   \<and> truthy (hg_repo ''http://hg.example.org/r.git'')
   \<and> first_match same ''http://hg.example.org/r.git'' = Some Git
   \<and> truthy (bzr_repo ''https://code.launchpad.net/x.git'')
   \<and> first_match same ''https://code.launchpad.net/x.git'' = Some Git
   \<and> update_primary_code_repositories same infos_priority
       = (\<lparr>git = [''http://hg.example.org/r.git'', ''http://svn.uktrainsim.com/svn/y.git'',
                  ''https://code.launchpad.net/x.git''],
           svn = [''http://svn.uktrainsim.com/svn/x'', ''https://svn.code.sf.net/p/x/code/''],
           hg = [''http://hg.example.org/r''], bzr = []\<rparr>,
          [])"
proof (intro conjI)
  show "consume_repo same (repos, consumed) repo0 =
     (case first_match same (strip (remove_parens repo0)) of
        None \<Rightarrow> (repos, consumed)
      | Some k \<Rightarrow> (file_under k (strip (remove_parens repo0)) repos, True))"
    by (rule consume_repo_first_match)
  show "fst (update_primary_code_repositories same infois) =
       \<lparr>git = sort (remdups (filed same Git (retained_urls infois))),
        svn = sort (remdups (filed same Svn (retained_urls infois))),
        hg = sort (remdups (filed same Hg (retained_urls infois))),
        bzr = sort (remdups (filed same Bzr (retained_urls infois)))\<rparr>"
    by (rule update_primary_code_repositories_filed)
  show "first_match same ''https://github.com/x/y.git'' = Some Git"
    by (induct same) code_simp+
  show "first_match same ''https://bitbucket.org/x/y'' = Some Hg"
    by (induct same) code_simp+
  show "first_match same ''https://code.launchpad.net/x'' = Some Bzr"
    by (induct same) code_simp+
  show "first_match same ''https://example.com/x'' = None"
    by (induct same) code_simp+
  show "update_primary_code_repositories same infos_classified
       = (\<lparr>git = [''https://github.com/x/y.git''], svn = [],
           hg = [''https://bitbucket.org/x/y''], bzr = [''https://code.launchpad.net/x'']\<rparr>,
          [(''E'', ''https://example.com/x'')])"
    by (induct same) code_simp+
  show "first_match same ''https://svn.code.sf.net/p/x/code/'' = Some Svn"
    by (induct same) code_simp+
  show "first_match same ''http://svn.uktrainsim.com/svn/x'' = Some Svn"
    by (induct same) code_simp+
  show "truthy (svn_repo same ''http://svn.uktrainsim.com/svn/y.git'')"
    by (induct same) code_simp+
  show "first_match same ''http://svn.uktrainsim.com/svn/y.git'' = Some Git"
    by (induct same) code_simp+
  show "truthy (hg_repo ''http://hg.example.org/r.git'')"
    by code_simp
  show "first_match same ''http://hg.example.org/r.git'' = Some Git"
    by (induct same) code_simp+
  show "truthy (bzr_repo ''https://code.launchpad.net/x.git'')"
    by code_simp
  show "first_match same ''https://code.launchpad.net/x.git'' = Some Git"
    by (induct same) code_simp+
  show "update_primary_code_repositories same infos_priority
       = (\<lparr>git = [''http://hg.example.org/r.git'', ''http://svn.uktrainsim.com/svn/y.git'',
                  ''https://code.launchpad.net/x.git''],
           svn = [''http://svn.uktrainsim.com/svn/x'', ''https://svn.code.sf.net/p/x/code/''],
           hg = [''http://hg.example.org/r''], bzr = []\<rparr>,
          [])"
    by (induct same) code_simp+
qed

section \<open>Properties of the export\<close>

lemma export_entry_state:
  assumes "export_entry shorten info = Inr row"
  shows "row ! 4 = state_summary info \<and> vals info ''state'' \<noteq> None"
proof (cases "vals info ''home''")
  case None
  with assms show ?thesis by (simp add: export_entry_def)
next
  case home: (Some home)
  show ?thesis
  proof (cases "home = []")
    case True
    with assms home show ?thesis by (simp add: export_entry_def)
  next
    case h: False
    show ?thesis
    proof (cases "vals info ''state''")
      case None
      with assms home h show ?thesis by (simp add: export_entry_def)
    next
      case state: (Some state)
      show ?thesis
      proof (cases "state = []")
        case True
        with assms home h state show ?thesis by (simp add: export_entry_def)
      next
        case False
        with assms home h state have "row ! 4 = hd state @ '' / ''
             @ (case inactive info of
                  Some year \<Rightarrow> ''inactive since '' @ year
                | None \<Rightarrow> ''active'')"
          by (auto simp: export_entry_def)
        with state show ?thesis by (simp add: state_summary_def field_values_def)
      qed
    qed
  qed
qed

lemma list_all2_left:
  "list_all2 P xs ys \<Longrightarrow> x \<in> set xs \<Longrightarrow> \<exists>y \<in> set ys. P x y"
  by (induction rule: list_all2_induct) auto

lemma list_all2_right:
  "list_all2 P xs ys \<Longrightarrow> y \<in> set ys \<Longrightarrow> \<exists>x \<in> set xs. P x y"
  by (induction rule: list_all2_induct) auto

lemma export_entries_rows:
  "export_entries shorten infois = Inr rows \<Longrightarrow>
   list_all2 (\<lambda>info row. export_entry shorten info = Inr row) infois rows"
proof (induction infois arbitrary: rows)
  case Nil
  then show ?case by simp
next
  case (Cons info infois)
  from Cons.prems obtain row rows' where
    "export_entry shorten info = Inr row" "export_entries shorten infois = Inr rows'"
    "rows = row # rows'"
    by (auto split: sum.splits)
  with Cons.IH show ?case by simp
qed

text \<open>
  C9. When the export succeeds, the rows of the table are the rows of the records, one
  for each, and the state column (index 4) of the row of a record is the first token of
  its decoded state list, \<^verbatim>\<open>" / "\<close>, and \<^verbatim>\<open>inactive since\<close> with the year when the record
  has the key \<^verbatim>\<open>inactive\<close>, or \<^verbatim>\<open>active\<close> when it has not.
\<close>

theorem export_state_column:
  assumes "export_json shorten infois = Inr d"
  shows "(\<forall>info \<in> set infois. \<exists>row \<in> set (data d).
            export_entry shorten info = Inr row \<and> row ! 4 = state_summary info
            \<and> vals info ''state'' \<noteq> None)
       \<and> (\<forall>row \<in> set (data d). \<exists>info \<in> set infois.
            export_entry shorten info = Inr row \<and> row ! 4 = state_summary info)
       \<and> length (data d) = length infois"
proof -
  from assms obtain rows where
    r: "export_entries shorten infois = Inr rows" and d: "data d = sort_key (\<lambda>x. x ! 0) rows"
    by (auto simp: export_json_def split: sum.splits)
  from export_entries_rows [OF r]
  have l: "list_all2 (\<lambda>info row. export_entry shorten info = Inr row) infois rows" .
  from d have s: "set (data d) = set rows" and n: "length (data d) = length rows" by simp_all
  have "\<exists>row \<in> set rows. export_entry shorten info = Inr row \<and> row ! 4 = state_summary info
          \<and> vals info ''state'' \<noteq> None"
    if "info \<in> set infois" for info
  proof -
    from list_all2_left [OF l that] obtain row where
      "row \<in> set rows" "export_entry shorten info = Inr row" by blast
    with export_entry_state [of shorten info row] show ?thesis by blast
  qed
  moreover have "\<exists>info \<in> set infois. export_entry shorten info = Inr row
                   \<and> row ! 4 = state_summary info"
    if "row \<in> set rows" for row
  proof -
    from list_all2_right [OF l that] obtain info where
      "info \<in> set infois" "export_entry shorten info = Inr row" by blast
    with export_entry_state [of shorten info row] show ?thesis by blast
  qed
  moreover from l have "length rows = length infois"
    by (simp add: list_all2_lengthD)
  ultimately show ?thesis using s n by simp
qed

theorem export_state_column_witness:
  "\<exists>d. export_json (\<lambda>s. s) infos_export = Inr d
     \<and> map (\<lambda>row. row ! 4) (data d) = [''mature / active'', ''beta / inactive since 2018'']
     \<and> map state_summary infos_export = [''beta / inactive since 2018'', ''mature / active'']
     \<and> length (data d) = length infos_export
     \<and> list_all (\<lambda>row. list_ex (\<lambda>info. row ! 4 = state_summary info) infos_export) (data d)"
proof -
  have e: "map_sum id (\<lambda>d. map (\<lambda>row. row ! 4) (data d)) (export_json (\<lambda>s. s) infos_export)
             = Inr [''mature / active'', ''beta / inactive since 2018'']"
    by code_simp
  then obtain d where d: "export_json (\<lambda>s. s) infos_export = Inr d"
    by (cases "export_json (\<lambda>s. s) infos_export") auto
  have m: "map state_summary infos_export = [''beta / inactive since 2018'', ''mature / active'']"
    by code_simp
  from export_state_column [OF d] have
    "\<forall>row \<in> set (data d). \<exists>info \<in> set infos_export. row ! 4 = state_summary info"
    and "length (data d) = length infos_export"
    by blast+
  with e d m show ?thesis
    by (auto simp: list_all_iff list_ex_iff)
qed

section \<open>Properties of the statistics\<close>

lemma sorted_wrt_two_keys:
  fixes k1 :: "'a \<Rightarrow> 'b::linorder" and k2 :: "'a \<Rightarrow> 'c::linorder"
  assumes "sorted_wrt (\<lambda>a b. k2 b \<le> k2 a) zs"
    and "\<And>k. sorted (map k1 (filter (\<lambda>y. k2 y = k) zs))"
  shows "sorted_wrt (\<lambda>a b. k2 b < k2 a \<or> (k2 a = k2 b \<and> k1 a \<le> k1 b)) zs"
  using assms
proof (induction zs)
  case Nil
  show ?case by simp
next
  case (Cons z zs)
  have t: "sorted (map k1 (filter (\<lambda>y. k2 y = k) zs))" for k
    using Cons.prems(2) [of k] by (cases "k2 z = k") simp_all
  have "k2 b < k2 z \<or> (k2 z = k2 b \<and> k1 z \<le> k1 b)" if b: "b \<in> set zs" for b
  proof (cases "k2 b < k2 z")
    case True
    then show ?thesis by simp
  next
    case False
    with Cons.prems(1) b have e: "k2 b = k2 z" by auto
    from Cons.prems(2) [of "k2 z"] have "sorted (k1 z # map k1 (filter (\<lambda>y. k2 y = k2 z) zs))"
      by simp
    with b e have "k1 z \<le> k1 b" by auto
    with e show ?thesis by simp
  qed
  moreover from Cons.prems(1) have "sorted_wrt (\<lambda>a b. k2 b \<le> k2 a) zs" by simp
  ultimately show ?case using Cons.IH t by simp
qed

lemma sort_key_reverse_two_keys:
  fixes k1 :: "'a \<Rightarrow> 'b::linorder" and k2 :: "'a \<Rightarrow> 'c::linorder"
  shows "sorted_wrt (\<lambda>a b. k2 b < k2 a \<or> (k2 a = k2 b \<and> k1 a \<le> k1 b))
           (sort_key_reverse k2 (sort_key k1 xs))"
proof (rule sorted_wrt_two_keys)
  let ?ys = "sort_key k1 xs"
  have "sorted (map k2 (sort_key k2 (rev ?ys)))" by simp
  then have "sorted_wrt (\<lambda>a b. k2 a \<le> k2 b) (sort_key k2 (rev ?ys))"
    by (simp add: sorted_map)
  then show "sorted_wrt (\<lambda>a b. k2 b \<le> k2 a) (sort_key_reverse k2 ?ys)"
    by (simp add: sort_key_reverse_def sorted_wrt_rev)
next
  fix k
  let ?ys = "sort_key k1 xs"
  have "filter (\<lambda>y. k2 y = k) (sort_key_reverse k2 ?ys)
          = rev (filter (\<lambda>y. k2 y = k) (sort_key k2 (rev ?ys)))"
    by (simp add: sort_key_reverse_def rev_filter)
  also have "\<dots> = rev (filter (\<lambda>y. k2 y = k) (rev ?ys))"
    by (simp only: sort_key_stable)
  also have "\<dots> = filter (\<lambda>y. k2 y = k) ?ys"
    by (simp add: rev_filter)
  finally have "filter (\<lambda>y. k2 y = k) (sort_key_reverse k2 ?ys) = filter (\<lambda>y. k2 y = k) ?ys" .
  moreover have "sorted (map k1 (filter (\<lambda>y. k2 y = k) ?ys))"
    by (rule sorted_filter) simp
  ultimately show "sorted (map k1 (filter (\<lambda>y. k2 y = k) (sort_key_reverse k2 ?ys)))"
    by simp
qed

lemma mset_sort_key_reverse: "mset (sort_key_reverse k xs) = mset xs"
  by (simp add: sort_key_reverse_def)

lemma generate_statistics_Inr:
  "generate_statistics infois = Inr st \<Longrightarrow> st = statistics_page infois"
  by (simp add: generate_statistics_def split: if_split_asm)

lemma generate_statistics_inactive:
  assumes "generate_statistics infois = Inr st"
  shows "entries_inactive st =
           sort_key_reverse snd (sort_key fst
             (map (\<lambda>x. (title x, the (inactive x))) (filter (\<lambda>x. inactive x \<noteq> None) infois)))"
  unfolding generate_statistics_Inr [OF assms] by (simp add: statistics_page_def Let_def)

text \<open>
  C7. The inactive listing holds the inactive records, each with its name and its year,
  ordered by descending year and, among equal years, by ascending name. The year is the
  text after \<^verbatim>\<open>inactive since\<close> and is compared as a string, as the names are.
\<close>

theorem inactive_ranking:
  assumes "generate_statistics infois = Inr st"
  shows "sorted_wrt (\<lambda>a b. snd b < snd a \<or> (snd a = snd b \<and> fst a \<le> fst b))
           (entries_inactive st)
       \<and> mset (entries_inactive st)
           = mset (map (\<lambda>x. (title x, the (inactive x)))
                    (filter (\<lambda>x. inactive x \<noteq> None) infois))"
  unfolding generate_statistics_inactive [OF assms]
  by (simp add: sort_key_reverse_two_keys mset_sort_key_reverse)

theorem inactive_ranking_witness:
  "\<exists>st. generate_statistics infos_inactive = Inr st
     \<and> entries_inactive st = [(''A'', ''2020''), (''C'', ''2020''), (''B'', ''2018'')]
     \<and> sorted_wrt (\<lambda>a b. snd b < snd a \<or> (snd a = snd b \<and> fst a \<le> fst b))
          (entries_inactive st)"
proof -
  have e: "map_sum id entries_inactive (generate_statistics infos_inactive)
             = Inr [(''A'', ''2020''), (''C'', ''2020''), (''B'', ''2018'')]"
    by code_simp
  then obtain st where st: "generate_statistics infos_inactive = Inr st"
    by (cases "generate_statistics infos_inactive") auto
  from inactive_ranking [OF st] e st show ?thesis by auto
qed

section \<open>Properties of the floats\<close>

lemma pow2_powi: "pow2 e = 2 powi e"
  by (simp add: pow2_def power_int_def inverse_eq_divide power_one_over)

lemma pow2_pos: "0 < pow2 e"
  by (simp add: pow2_powi)

lemma pow2_add: "pow2 (a + b) = pow2 a * pow2 b"
  by (simp add: pow2_powi power_int_add)

lemma round_half_even_error: "\<bar>of_int (round_half_even x) - x\<bar> \<le> 1 / 2"
proof -
  have "of_int \<lfloor>x\<rfloor> \<le> x" "x < of_int \<lfloor>x\<rfloor> + 1" by linarith+
  then show ?thesis
    by (auto simp: round_half_even_def Let_def abs_le_iff)
qed

lemma round_half_even_nonneg: "0 \<le> x \<Longrightarrow> 0 \<le> round_half_even x"
  by (auto simp: round_half_even_def Let_def)

lemma bitlen_lower: "0 < a \<Longrightarrow> (2::rat) powi (bitlen a - 1) \<le> of_int a"
proof -
  assume a: "0 < a"
  then have "2 ^ nat (bitlen a - 1) \<le> a" using bitlen_bounds [of a] by simp
  then have "(of_int (2 ^ nat (bitlen a - 1)) :: rat) \<le> of_int a" by (simp only: of_int_le_iff)
  then have "(2::rat) ^ nat (bitlen a - 1) \<le> of_int a" by simp
  moreover from a have "1 \<le> bitlen a" by (auto simp: bitlen_alt_def)
  ultimately show ?thesis by (simp add: power_int_def)
qed

lemma bitlen_upper: "0 < b \<Longrightarrow> (of_int b :: rat) < 2 powi (bitlen b)"
proof -
  assume b: "0 < b"
  then have "b < 2 ^ nat (bitlen b)" using bitlen_bounds [of b] by simp
  then have "(of_int b :: rat) < of_int (2 ^ nat (bitlen b))" by (simp only: of_int_less_iff)
  then have "(of_int b :: rat) < 2 ^ nat (bitlen b)" by simp
  then show ?thesis using bitlen_nonneg [of b] by (simp add: power_int_def)
qed

lemma exponent_lower:
  assumes "0 < x"
  shows "pow2 (exponent x) \<le> x"
proof -
  obtain a b where q: "quotient_of x = (a, b)" by (cases "quotient_of x")
  then have b: "0 < b" and x: "x = of_int a / of_int b"
    by (simp_all add: quotient_of_denom_pos quotient_of_div)
  from assms b x have a: "0 < a" by (simp add: zero_less_divide_iff)
  show ?thesis
  proof (cases "pow2 (bitlen a - bitlen b) \<le> x")
    case True
    with q show ?thesis by (simp add: exponent_def)
  next
    case False
    with q have e: "exponent x = bitlen a - bitlen b - 1" by (simp add: exponent_def)
    have "(2::rat) powi (bitlen a - bitlen b - 1) = 2 powi (bitlen a - 1) / 2 powi (bitlen b)"
      by (simp add: power_int_diff)
    also have "\<dots> \<le> of_int a / 2 powi (bitlen b)"
      using bitlen_lower [OF a] by (simp add: divide_right_mono)
    also have "\<dots> \<le> of_int a / of_int b"
      using a b bitlen_upper [OF b] by (simp add: frac_le)
    finally show ?thesis using e x by (simp add: pow2_powi)
  qed
qed

text \<open>The relative error of rounding to a float is at most \<open>2\<close> to the power \<open>-53\<close>.\<close>

lemma float_round_error:
  assumes "0 \<le> x"
  shows "\<bar>float_round x - x\<bar> \<le> x / 2 ^ 53"
proof (cases "x = 0")
  case True
  then show ?thesis by (simp add: float_round_def)
next
  case False
  with assms have x: "0 < x" by simp
  let ?u = "pow2 (exponent x - 52)"
  let ?m = "round_half_even (x / ?u)"
  have u: "0 < ?u" by (rule pow2_pos)
  from x have f: "float_round x = of_int ?m * ?u"
    by (simp add: float_round_def Let_def)
  have "\<bar>of_int ?m - x / ?u\<bar> \<le> 1 / 2" by (rule round_half_even_error)
  then have "\<bar>of_int ?m - x / ?u\<bar> * ?u \<le> 1 / 2 * ?u"
    using u by (simp add: mult_right_mono)
  moreover have "\<bar>of_int ?m - x / ?u\<bar> * ?u = \<bar>of_int ?m * ?u - x\<bar>"
  proof -
    have "\<bar>of_int ?m - x / ?u\<bar> * ?u = \<bar>(of_int ?m - x / ?u) * ?u\<bar>"
      using u by (simp add: abs_mult)
    also have "(of_int ?m - x / ?u) * ?u = of_int ?m * ?u - x"
      using u by (simp add: left_diff_distrib)
    finally show ?thesis .
  qed
  ultimately have e: "\<bar>float_round x - x\<bar> \<le> ?u / 2" using f by simp
  have "pow2 (exponent x) = pow2 (exponent x - 52) * pow2 52"
    using pow2_add [of "exponent x - 52" 52] by simp
  then have "?u = pow2 (exponent x) / 2 ^ 52" by (simp add: pow2_def)
  then have "?u / 2 = pow2 (exponent x) / 2 ^ 53" by simp
  also have "\<dots> \<le> x / 2 ^ 53"
    using exponent_lower [OF x] by (simp add: divide_right_mono)
  finally show ?thesis using e by simp
qed

lemma float_round_nonneg: "0 \<le> x \<Longrightarrow> 0 \<le> float_round x"
  using pow2_pos [of "exponent x - 52"] round_half_even_nonneg [of "x / pow2 (exponent x - 52)"]
  by (simp add: float_round_def Let_def)

text \<open>
  The number shown for a frequency that is the float nearest to \<open>q\<close> is within half a
  tenth, and a little, of \<open>100 * q\<close>.
\<close>

lemma percentage_error:
  assumes "0 \<le> q"
  shows "\<bar>(of_int (percentage (float_round q)) :: rat) / 10 - 100 * q\<bar>
           \<le> 1 / 20 + 300 * q / 2 ^ 53"
proof -
  let ?f = "float_round q"
  let ?p = "float_round (?f * 100)"
  define d where "d = q / 2 ^ 53"
  have d0: "0 \<le> d" using assms by (simp add: d_def)
  have dq: "d \<le> q" using assms by (simp add: d_def field_simps)
  have f0: "0 \<le> ?f" using assms by (rule float_round_nonneg)
  have fe: "\<bar>?f - q\<bar> \<le> d" unfolding d_def using assms by (rule float_round_error)
  from fe dq have f2: "?f \<le> 2 * q" by linarith
  have "\<bar>?p - ?f * 100\<bar> \<le> ?f * 100 / 2 ^ 53"
    using f0 by (intro float_round_error) simp
  also have "\<dots> \<le> (2 * q) * 100 / 2 ^ 53"
    using f2 by (intro divide_right_mono mult_right_mono) simp_all
  also have "\<dots> = 200 * d" by (simp add: d_def)
  finally have pe: "\<bar>?p - ?f * 100\<bar> \<le> 200 * d" .
  have "\<bar>of_int (round_half_even (?p * 10)) - ?p * 10\<bar> \<le> 1 / 2"
    by (rule round_half_even_error)
  then have te: "\<bar>of_int (round_half_even (?p * 10)) / 10 - ?p\<bar> \<le> 1 / 20"
    by linarith
  have "300 * q / 2 ^ 53 = 300 * d" by (simp add: d_def)
  with te pe fe show ?thesis
    unfolding percentage_def float_mul_def format_1f_def by linarith
qed

section \<open>Properties of the frequency tables\<close>

lemma sum_list_abs_diff:
  fixes f g h :: "'a \<Rightarrow> rat"
  assumes "\<And>x. x \<in> set xs \<Longrightarrow> \<bar>f x - g x\<bar> \<le> h x"
  shows "\<bar>sum_list (map f xs) - sum_list (map g xs)\<bar> \<le> sum_list (map h xs)"
  using assms
proof (induction xs)
  case Nil
  show ?case by simp
next
  case (Cons x xs)
  have "\<bar>f x - g x\<bar> \<le> h x" using Cons.prems by simp
  moreover have "\<bar>sum_list (map f xs) - sum_list (map g xs)\<bar> \<le> sum_list (map h xs)"
    using Cons.IH Cons.prems by simp
  ultimately show ?case by (auto simp: abs_le_iff)
qed

lemma sum_count_list_remdups:
  "sum_list (map (count_list xs) (remdups xs)) = length xs"
proof -
  have "sum_list (map (count_list xs) (remdups xs)) = sum (count_list xs) (set (remdups xs))"
    by (rule sum_list_distinct_conv_sum_set) simp
  also have "\<dots> = length xs"
    by (simp add: sum_count_set)
  finally show ?thesis .
qed

lemma sum_list_divide:
  fixes c :: rat
  shows "sum_list (map (\<lambda>x. f x / c) xs) = sum_list (map f xs) / c"
  by (induction xs) (simp_all add: add_divide_distrib)

lemma sum_list_of_nat:
  "sum_list (map (\<lambda>x. (of_nat (f x) :: rat)) xs) = of_nat (sum_list (map f xs))"
  by (induction xs) simp_all

text \<open>The exact quotients of the distinct values sum to 1.\<close>

lemma quotients_sum:
  assumes "xs \<noteq> []"
  shows "sum_list (map (\<lambda>l. (of_nat (count_list xs l) :: rat) / of_nat (length xs)) (remdups xs))
           = 1"
proof -
  have "sum_list (map (\<lambda>l. (of_nat (count_list xs l) :: rat) / of_nat (length xs)) (remdups xs))
          = sum_list (map (\<lambda>l. (of_nat (count_list xs l) :: rat)) (remdups xs))
              / of_nat (length xs)"
    by (rule sum_list_divide)
  also have "\<dots> = of_nat (length xs) / of_nat (length xs)"
    by (simp only: sum_list_of_nat sum_count_list_remdups)
  also from assms have "\<dots> = 1" by simp
  finally show ?thesis .
qed

lemma truediv_quotient:
  "truediv (int a) (int b) = float_round (of_nat a / of_nat b)"
  by (simp add: truediv_def)

lemma frequencies_keys: "map fst (frequencies xs) = remdups xs"
  by (simp add: frequencies_def comp_def)

lemma frequencies_values:
  assumes "(l, f) \<in> set (frequencies xs)"
  shows "f = truediv (int (count_list xs l)) (int (length xs))"
    and "\<bar>f - of_nat (count_list xs l) / of_nat (length xs)\<bar>
           \<le> of_nat (count_list xs l) / of_nat (length xs) / 2 ^ 53"
proof -
  from assms show f: "f = truediv (int (count_list xs l)) (int (length xs))"
    by (auto simp: frequencies_def)
  show "\<bar>f - of_nat (count_list xs l) / of_nat (length xs)\<bar>
           \<le> of_nat (count_list xs l) / of_nat (length xs) / 2 ^ 53"
    unfolding f truediv_quotient by (rule float_round_error) simp
qed

lemma frequencies_sum:
  assumes "xs \<noteq> []"
  shows "\<bar>sum_list (map snd (frequencies xs)) - 1\<bar> \<le> 1 / 2 ^ 53"
proof -
  let ?q = "\<lambda>l. (of_nat (count_list xs l) :: rat) / of_nat (length xs)"
  have "\<bar>sum_list (map (\<lambda>l. float_round (?q l)) (remdups xs)) - sum_list (map ?q (remdups xs))\<bar>
          \<le> sum_list (map (\<lambda>l. ?q l / 2 ^ 53) (remdups xs))"
  proof (rule sum_list_abs_diff)
    fix l
    show "\<bar>float_round (?q l) - ?q l\<bar> \<le> ?q l / 2 ^ 53"
      by (rule float_round_error) simp
  qed
  moreover have "map snd (frequencies xs) = map (\<lambda>l. float_round (?q l)) (remdups xs)"
    by (simp add: frequencies_def comp_def truediv_quotient)
  moreover have "sum_list (map (\<lambda>l. ?q l / 2 ^ 53) (remdups xs))
                   = sum_list (map ?q (remdups xs)) / 2 ^ 53"
    by (rule sum_list_divide)
  ultimately show ?thesis by (simp add: quotients_sum [OF assms])
qed

lemma sum_list_add_const:
  fixes c :: rat
  shows "sum_list (map (\<lambda>x. c + f x) xs) = of_nat (length xs) * c + sum_list (map f xs)"
  by (induction xs) (simp_all add: algebra_simps)

lemma sum_list_mult_const:
  fixes c :: rat
  shows "sum_list (map (\<lambda>x. c * f x) xs) = c * sum_list (map f xs)"
  by (induction xs) (simp_all add: algebra_simps)

lemma percentages_sum:
  assumes "xs \<noteq> []"
  shows "\<bar>sum_list (map (\<lambda>(l, f). (of_int (percentage f) :: rat) / 10) (frequencies xs)) - 100\<bar>
           \<le> of_nat (length (frequencies xs)) / 20 + 300 / 2 ^ 53"
proof -
  let ?q = "\<lambda>l. (of_nat (count_list xs l) :: rat) / of_nat (length xs)"
  let ?t = "\<lambda>l. (of_int (percentage (float_round (?q l))) :: rat) / 10"
  have "\<bar>sum_list (map ?t (remdups xs)) - sum_list (map (\<lambda>l. 100 * ?q l) (remdups xs))\<bar>
          \<le> sum_list (map (\<lambda>l. 1 / 20 + 300 / 2 ^ 53 * ?q l) (remdups xs))"
  proof (rule sum_list_abs_diff)
    fix l
    have "\<bar>?t l - 100 * ?q l\<bar> \<le> 1 / 20 + 300 * ?q l / 2 ^ 53"
      by (rule percentage_error) simp
    then show "\<bar>?t l - 100 * ?q l\<bar> \<le> 1 / 20 + 300 / 2 ^ 53 * ?q l" by simp
  qed
  moreover have "sum_list (map (\<lambda>l. 100 * ?q l) (remdups xs)) = 100"
  proof -
    have "sum_list (map (\<lambda>l. 100 * ?q l) (remdups xs)) = 100 * sum_list (map ?q (remdups xs))"
      by (rule sum_list_mult_const)
    then show ?thesis unfolding quotients_sum [OF assms] by simp
  qed
  moreover have "sum_list (map (\<lambda>l. 1 / 20 + 300 / 2 ^ 53 * ?q l) (remdups xs))
                   = of_nat (length (remdups xs)) / 20 + 300 / 2 ^ 53"
  proof -
    have "sum_list (map (\<lambda>l. 1 / 20 + 300 / 2 ^ 53 * ?q l) (remdups xs))
            = of_nat (length (remdups xs)) * (1 / 20)
              + sum_list (map (\<lambda>l. 300 / 2 ^ 53 * ?q l) (remdups xs))"
      by (rule sum_list_add_const)
    also have "sum_list (map (\<lambda>l. 300 / 2 ^ 53 * ?q l) (remdups xs))
                 = 300 / 2 ^ 53 * sum_list (map ?q (remdups xs))"
      by (rule sum_list_mult_const)
    finally show ?thesis unfolding quotients_sum [OF assms] by simp
  qed
  moreover have "map (\<lambda>(l, f). (of_int (percentage f) :: rat) / 10) (frequencies xs) = map ?t (remdups xs)"
    by (simp add: frequencies_def comp_def truediv_quotient)
  moreover have "length (frequencies xs) = length (remdups xs)"
    by (simp add: frequencies_def)
  ultimately show ?thesis by simp
qed

text \<open>What holds of a table that is a rearrangement of \<open>frequencies xs\<close>.\<close>

lemma frequency_table:
  assumes "mset table = mset (frequencies xs)"
  shows "distinct (map fst table)" and "set (map fst table) = set xs"
    and "\<And>l f. (l, f) \<in> set table \<Longrightarrow>
           f = truediv (int (count_list xs l)) (int (length xs))
           \<and> \<bar>f - of_nat (count_list xs l) / of_nat (length xs)\<bar>
               \<le> of_nat (count_list xs l) / of_nat (length xs) / 2 ^ 53"
    and "xs \<noteq> [] \<Longrightarrow> \<bar>sum_list (map snd table) - 1\<bar> \<le> 1 / 2 ^ 53"
    and "xs \<noteq> [] \<Longrightarrow>
           \<bar>sum_list (map (\<lambda>(l, f). (of_int (percentage f) :: rat) / 10) table) - 100\<bar>
             \<le> of_nat (length table) / 20 + 300 / 2 ^ 53"
    and "xs = [] \<Longrightarrow> table = []"
proof -
  from assms have k: "mset (map fst table) = mset (remdups xs)"
    by (metis frequencies_keys mset_map)
  then show "distinct (map fst table)"
    by (metis distinct_remdups mset_eq_imp_distinct_iff)
  from k show "set (map fst table) = set xs"
    by (metis mset_eq_setD set_remdups)
  from assms have "set table = set (frequencies xs)" by (rule mset_eq_setD)
  then show "f = truediv (int (count_list xs l)) (int (length xs))
           \<and> \<bar>f - of_nat (count_list xs l) / of_nat (length xs)\<bar>
               \<le> of_nat (count_list xs l) / of_nat (length xs) / 2 ^ 53"
    if "(l, f) \<in> set table" for l f
    using that frequencies_values [of l f xs] by blast
  have s: "sum_list (map g table) = sum_list (map g (frequencies xs))"
    for g :: "string \<times> rat \<Rightarrow> rat"
  proof -
    from assms have "mset (map g table) = mset (map g (frequencies xs))" by simp
    then show ?thesis by (metis sum_mset_sum_list)
  qed
  from assms have n: "length table = length (frequencies xs)" by (rule mset_eq_length)
  show "\<bar>sum_list (map snd table) - 1\<bar> \<le> 1 / 2 ^ 53" if "xs \<noteq> []"
    unfolding s using that by (rule frequencies_sum)
  show "\<bar>sum_list (map (\<lambda>(l, f). (of_int (percentage f) :: rat) / 10) table) - 100\<bar>
          \<le> of_nat (length table) / 20 + 300 / 2 ^ 53" if "xs \<noteq> []"
    unfolding s n using that by (rule percentages_sum)
  show "table = []" if "xs = []"
    using that assms by (simp add: frequencies_def)
qed

lemma statistics_page_tables:
  "mset (unique_languages (statistics_page infois))
     = mset (frequencies (all_values ''code language'' infois))"
  "mset (unique_licenses (statistics_page infois))
     = mset (frequencies (all_values ''code license'' infois))"
  "mset (unique_keywords (statistics_page infois))
     = mset (frequencies (all_values ''keywords'' infois))"
  "mset (unique_platforms (statistics_page infois))
     = mset (frequencies (all_values ''platform'' infois))"
  "mset (unique_build_systems (statistics_page infois))
     = mset (frequencies (all_values ''build system'' infois))"
  by (simp_all add: statistics_page_def Let_def mset_sort_key_reverse)

text \<open>
  C6, as the code has it. The three records of the first set carry no platform: the
  statistics are produced, the platform table is empty and its frequencies sum to 0.
  The three records of the second set carry one keyword each, all different: every
  frequency is the float nearest to one third, which is below one third, and the three
  sum to less than 1.
\<close>

theorem frequencies_not_exactly_one:
  "infos_inactive \<noteq> []
   \<and> all_values ''platform'' infos_inactive = []
   \<and> map_sum id (\<lambda>st. (unique_platforms st, sum_list (map snd (unique_platforms st))))
        (generate_statistics infos_inactive) = Inr ([], 0)
   \<and> all_values ''keywords'' infos_thirds = [''action'', ''puzzle'', ''strategy'']
   \<and> map_sum id (\<lambda>st. (unique_keywords st, sum_list (map snd (unique_keywords st))))
        (generate_statistics infos_thirds)
       = Inr ([(''action'', 6004799503160661 / 18014398509481984),
               (''puzzle'', 6004799503160661 / 18014398509481984),
               (''strategy'', 6004799503160661 / 18014398509481984)],
              18014398509481983 / 18014398509481984)"
  by code_simp

text \<open>
  C6, amended. When the statistics are produced, the table of each facet (code language,
  code license, keyword, platform, build system) lists every distinct value of the facet
  once, with the float nearest to the number of its occurrences divided by the number of
  all occurrences of the facet in all records: the denominator is the occurrence total,
  not the number of records, and the frequency differs from the exact quotient by at
  most the quotient times \<open>2\<close> to the power \<open>-53\<close>. For a facet that occurs at least once
  the frequencies sum to 1 within \<open>2\<close> to the power \<open>-53\<close>, and the percentages shown
  with one decimal sum to 100 within 0.05 for each distinct value (and \<open>300\<close> times \<open>2\<close> to
  the power \<open>-53\<close>). For a facet that does not occur the table is empty.
\<close>

theorem frequencies_sum_within_rounding:
  assumes "generate_statistics infois = Inr st"
    and "(field, table) \<in> set
           [(''code language'', unique_languages st), (''code license'', unique_licenses st),
            (''keywords'', unique_keywords st), (''platform'', unique_platforms st),
            (''build system'', unique_build_systems st)]"
  shows "distinct (map fst table) \<and> set (map fst table) = set (all_values field infois)
       \<and> (\<forall>(l, f) \<in> set table.
            f = truediv (int (count_list (all_values field infois) l))
                  (int (length (all_values field infois)))
            \<and> \<bar>f - of_nat (count_list (all_values field infois) l)
                      / of_nat (length (all_values field infois))\<bar>
                \<le> of_nat (count_list (all_values field infois) l)
                     / of_nat (length (all_values field infois)) / 2 ^ 53)
       \<and> (all_values field infois \<noteq> [] \<longrightarrow>
            \<bar>sum_list (map snd table) - 1\<bar> \<le> 1 / 2 ^ 53
            \<and> \<bar>sum_list (map (\<lambda>(l, f). (of_int (percentage f) :: rat) / 10) table) - 100\<bar>
                \<le> of_nat (length table) / 20 + 300 / 2 ^ 53)
       \<and> (all_values field infois = [] \<longrightarrow> table = [])"
proof -
  from assms(1) have st: "st = statistics_page infois" by (rule generate_statistics_Inr)
  from assms(2) have "mset table = mset (frequencies (all_values field infois))"
    unfolding st using statistics_page_tables [of infois] by auto
  from frequency_table [OF this] show ?thesis by blast
qed

theorem frequencies_sum_within_rounding_witness:
  "\<exists>st. generate_statistics infos_inactive = Inr st
     \<and> (''keywords'', unique_keywords st) \<in> set
           [(''code language'', unique_languages st), (''code license'', unique_licenses st),
            (''keywords'', unique_keywords st), (''platform'', unique_platforms st),
            (''build system'', unique_build_systems st)]
     \<and> all_values ''keywords'' infos_inactive
         = [''action'', ''puzzle'', ''puzzle'', ''strategy'', ''puzzle'']
     \<and> map (\<lambda>(l, f). (l, percentage f)) (unique_keywords st)
         = [(''puzzle'', 600), (''action'', 200), (''strategy'', 200)]
     \<and> \<bar>sum_list (map snd (unique_keywords st)) - 1\<bar> \<le> 1 / 2 ^ 53
     \<and> \<bar>sum_list (map (\<lambda>(l, f). (of_int (percentage f) :: rat) / 10) (unique_keywords st)) - 100\<bar>
         \<le> of_nat (length (unique_keywords st)) / 20 + 300 / 2 ^ 53"
proof -
  have e: "map_sum id (\<lambda>st. map (\<lambda>(l, f). (l, percentage f)) (unique_keywords st))
             (generate_statistics infos_inactive)
             = Inr [(''puzzle'', 600), (''action'', 200), (''strategy'', 200)]"
    by code_simp
  then obtain st where st: "generate_statistics infos_inactive = Inr st"
    by (cases "generate_statistics infos_inactive") auto
  have m: "(''keywords'', unique_keywords st) \<in> set
           [(''code language'', unique_languages st), (''code license'', unique_licenses st),
            (''keywords'', unique_keywords st), (''platform'', unique_platforms st),
            (''build system'', unique_build_systems st)]"
    by simp
  have v: "all_values ''keywords'' infos_inactive
         = [''action'', ''puzzle'', ''puzzle'', ''strategy'', ''puzzle'']"
    by code_simp
  from v have ne: "all_values ''keywords'' infos_inactive \<noteq> []" by simp
  from frequencies_sum_within_rounding [OF st m] ne
  have "\<bar>sum_list (map snd (unique_keywords st)) - 1\<bar> \<le> 1 / 2 ^ 53"
    and "\<bar>sum_list (map (\<lambda>(l, f). (of_int (percentage f) :: rat) / 10) (unique_keywords st)) - 100\<bar>
         \<le> of_nat (length (unique_keywords st)) / 20 + 300 / 2 ^ 53"
    by blast+
  with e st m v show ?thesis by auto
qed

end
